theory Spec2Isabelle
  imports Complex_Main "HOL-Library.Word"
begin

section \<open>Data of pprofetheus.go\<close>

text \<open>
  Go's \<open>uint64\<close> and \<open>int64\<close> are both 64-bit words; \<open>sint\<close> reads a word as the signed
  \<open>int64\<close>, and the conversion \<open>uint64(x)\<close> of an \<open>int64\<close> keeps the bits, so it is the
  identity on the word. \<open>+\<close> on words wraps around, as Go's does.
\<close>

type_synonym uint64 = "64 word"
type_synonym int64 = "64 word"
type_synonym byte = "8 word"

text \<open>\<open>objfile.Sym\<close>: the fields that \<open>mapLocations\<close> reads.\<close>

record Sym =
  Name :: string
  Addr :: uint64
  Size :: int64

text \<open>
  \<open>profile.Location\<close>, \<open>profile.Sample\<close> and \<open>profile.Profile\<close>: the fields that
  \<open>Collect\<close> and \<open>mapLocations\<close> read. The Go slices hold pointers to locations and
  samples; the lists here hold the records they point to. A sample holds its stack leaf
  first, and its second value is the time it stands for, in nanoseconds.
\<close>

record Location =
  ID :: uint64
  Address :: uint64

record Sample =
  Location :: "Location list"
  Value :: "int64 list"

record Profile =
  Location :: "Location list"
  Sample :: "Sample list"

definition cpuProfileRate :: int where
  "cpuProfileRate = 100"

definition nanoToMilliDivisor :: real where
  "nanoToMilliDivisor = 1000000"

section \<open>The Prometheus counters\<close>

text \<open>
  A \<open>prometheus.Counter\<close> holds one \<open>float64\<close>; a \<open>prometheus.CounterVec\<close> holds one
  counter per label value, created at 0 by the first \<open>WithLabelValues\<close> for that label.
  Counter values are modelled as real numbers: the rounding of \<open>float64\<close> is not modelled.
  \<open>Counter.Add\<close> panics on a negative argument (the library's documented behaviour:
  a counter cannot decrease in value), which is the first kind of panic that \<open>Collect\<close> can
  raise; the second is its own \<open>panic(err)\<close> on a parse error.
\<close>

type_synonym Counter = real
type_synonym CounterVec = "string \<rightharpoonup> Counter"

datatype panic = ParseError string | CounterCannotDecrease

definition Inc :: "Counter \<Rightarrow> Counter" where
  "Inc v = v + 1"

definition Add :: "Counter \<Rightarrow> real \<Rightarrow> panic + Counter" where
  "Add v d = (if d < 0 then Inl CounterCannotDecrease else Inr (v + d))"

definition WithLabelValues :: "CounterVec \<Rightarrow> string \<Rightarrow> CounterVec \<times> Counter" where
  "WithLabelValues vec lv = (case vec lv of None \<Rightarrow> (vec(lv \<mapsto> 0), 0) | Some v \<Rightarrow> (vec, v))"

text \<open>\<open>vec.WithLabelValues(lv).Add(d)\<close>: on a panic the child counter has been created already.\<close>

definition AddLabelled :: "CounterVec \<Rightarrow> string \<Rightarrow> real \<Rightarrow> (panic \<times> CounterVec) + CounterVec" where
  "AddLabelled vec lv d =
     (case WithLabelValues vec lv of (vec', v) \<Rightarrow>
        (case Add v d of Inl p \<Rightarrow> Inl (p, vec') | Inr v' \<Rightarrow> Inr (vec'(lv \<mapsto> v'))))"

text \<open>The value that a counter vector exports for a label: a label without a child exports nothing,
  and reads as 0 here.\<close>

definition reading :: "CounterVec \<Rightarrow> string \<Rightarrow> real" where
  "reading vec lv = (case vec lv of None \<Rightarrow> 0 | Some v \<Rightarrow> v)"

section \<open>The collector and the runtime's profiler\<close>

record cpuProfileCollector =
  timeUsed :: CounterVec
  timeUsedCum :: CounterVec
  started :: Counter
  stopped :: Counter
  running :: bool
  symbols :: "Sym list"

text \<open>
  The runtime's CPU profiler, as far as the collector uses it: the sampling rate in force
  (0 when sampling is off), the chunks of profile data that successive calls of
  \<open>runtime.CPUProfile\<close> return before it returns \<open>nil\<close>, and whether a profile is unread:
  a profile begins when sampling is switched on, and it is unread until \<open>CPUProfile\<close> has
  returned \<open>nil\<close> for it.
\<close>

record runtime =
  profileRate :: int
  profBuf :: "byte list list"
  unread :: bool

text \<open>
  \<open>runtime.SetCPUProfileRate\<close>: a rate below 0 counts as 0 and a rate above 1000000 as
  1000000. A positive rate starts sampling, and with it a new profile, when sampling is
  off and the previous profile has been read; while sampling is on or the previous profile
  is unread the call is refused and nothing changes (the runtime prints that it cannot set
  the rate until the previous profile has finished). Rate 0 switches sampling off and
  leaves the profile to be read.
\<close>

definition SetCPUProfileRate :: "int \<Rightarrow> runtime \<Rightarrow> runtime" where
  "SetCPUProfileRate hz rt =
     (if hz > 0 then
        (if profileRate rt = 0 \<and> \<not> unread rt
         then rt\<lparr>profileRate := min hz 1000000, unread := True\<rparr>
         else rt)
      else rt\<lparr>profileRate := 0\<rparr>)"

text \<open>
  \<open>runtime.CPUProfile\<close> with sampling off, which is how \<open>Collect\<close> calls it (with sampling
  on it would wait for data): the next chunk, or \<open>nil\<close> at the end of the profile, which is
  read from then on.
\<close>

definition CPUProfile :: "runtime \<Rightarrow> byte list option \<times> runtime" where
  "CPUProfile rt =
     (case profBuf rt of
        [] \<Rightarrow> (None, rt\<lparr>unread := False\<rparr>)
      | d # ds \<Rightarrow> (Some d, rt\<lparr>profBuf := ds\<rparr>))"

text \<open>The process: the collector (under its mutex) and the process-wide profiler.\<close>

record process =
  collector :: cpuProfileCollector
  prof :: runtime

text \<open>
  \<open>NewCPUProfileCollector\<close>. \<open>objfile.Open\<close> and the \<open>Symbols\<close> method of the file it
  returns are parameters; each gives an error or its result.
\<close>

definition NewCPUProfileCollector ::
    "(string \<Rightarrow> string + 'f) \<Rightarrow> ('f \<Rightarrow> string + Sym list) \<Rightarrow> string + cpuProfileCollector" where
  "NewCPUProfileCollector Open Symbols =
     (case Open ''/proc/self/exe'' of
        Inl err \<Rightarrow> Inl err
      | Inr exeFile \<Rightarrow>
          (case Symbols exeFile of
             Inl err \<Rightarrow> Inl err
           | Inr syms \<Rightarrow>
               Inr \<lparr>timeUsed = Map.empty, timeUsedCum = Map.empty, started = 0, stopped = 0,
                    running = False, symbols = syms\<rparr>))"

section \<open>Start and Stop\<close>

definition Start :: "process \<Rightarrow> process" where
  "Start w =
     (if running (collector w) then w
      else w\<lparr>collector := (collector w)\<lparr>running := True, started := Inc (started (collector w))\<rparr>,
             prof := SetCPUProfileRate cpuProfileRate (prof w)\<rparr>)"

definition Stop :: "process \<Rightarrow> process" where
  "Stop w =
     (if \<not> running (collector w) then w
      else w\<lparr>collector := (collector w)\<lparr>running := False, stopped := Inc (stopped (collector w))\<rparr>,
             prof := SetCPUProfileRate 0 (prof w)\<rparr>)"

section \<open>mapLocations\<close>

text \<open>The test of the inner loop: \<open>l.Address >= s.Addr && l.Address <= s.Addr+uint64(s.Size)\<close>.\<close>

definition inRange :: "Sym \<Rightarrow> uint64 \<Rightarrow> bool" where
  "inRange s a \<longleftrightarrow> a \<ge> Addr s \<and> a \<le> Addr s + Size s"

text \<open>The inner loop over the symbols, left by \<open>break\<close> at the first match.\<close>

fun symLoop :: "Location \<Rightarrow> Sym list \<Rightarrow> (uint64 \<rightharpoonup> string) \<Rightarrow> (uint64 \<rightharpoonup> string)" where
  "symLoop l [] result = result"
| "symLoop l (s # ss) result =
     (if inRange s (Address l) then result(ID l \<mapsto> Name s) else symLoop l ss result)"

text \<open>The outer loop over the locations.\<close>

fun locLoop :: "Location list \<Rightarrow> Sym list \<Rightarrow> (uint64 \<rightharpoonup> string) \<Rightarrow> (uint64 \<rightharpoonup> string)" where
  "locLoop [] syms result = result"
| "locLoop (l # ls) syms result = locLoop ls syms (symLoop l syms result)"

definition mapLocations :: "Location list \<Rightarrow> Sym list \<Rightarrow> (uint64 \<rightharpoonup> string)" where
  "mapLocations locations syms = locLoop locations syms Map.empty"

text \<open>Reading a Go \<open>map[uint64]string\<close>: a missing key gives the empty string.\<close>

definition index :: "(uint64 \<rightharpoonup> string) \<Rightarrow> uint64 \<Rightarrow> string" where
  "index m k = (case m k of None \<Rightarrow> '''' | Some name \<Rightarrow> name)"

section \<open>Collect\<close>

text \<open>The drain loop: \<open>runtime.CPUProfile()\<close> until it returns \<open>nil\<close>.\<close>

function drain :: "runtime \<Rightarrow> byte list \<Rightarrow> byte list \<times> runtime" where
  "drain rt allData =
     (case CPUProfile rt of
        (None, rt') \<Rightarrow> (allData, rt')
      | (Some d, rt') \<Rightarrow> drain rt' (allData @ d))"
  by pat_completeness auto
termination
  by (relation "measure (\<lambda>(rt, allData). length (profBuf rt))")
     (auto simp: CPUProfile_def split: list.splits)

declare drain.simps [simp del]

text \<open>The loop over the stack of one sample, adding to the cumulated counters.\<close>

fun cumLoop :: "(uint64 \<rightharpoonup> string) \<Rightarrow> real \<Rightarrow> Location list \<Rightarrow> CounterVec
    \<Rightarrow> (panic \<times> CounterVec) + CounterVec" where
  "cumLoop locations d [] vec = Inr vec"
| "cumLoop locations d (l # ls) vec =
     (case AddLabelled vec (index locations (ID l)) d of
        Inl e \<Rightarrow> Inl e
      | Inr vec' \<Rightarrow> cumLoop locations d ls vec')"

text \<open>The body of the loop over the samples.\<close>

definition sampleStep :: "(uint64 \<rightharpoonup> string) \<Rightarrow> cpuProfileCollector \<Rightarrow> Sample
    \<Rightarrow> (panic \<times> cpuProfileCollector) + cpuProfileCollector" where
  "sampleStep locations c s =
     (if length (Sample.Location s) = 0 \<or> length (Value s) < 2 then Inr c
      else
        let d = real_of_int (sint (Value s ! 1)) / nanoToMilliDivisor in
        case AddLabelled (timeUsed c) (index locations (ID (Sample.Location s ! 0))) d of
          Inl (p, vec) \<Rightarrow> Inl (p, c\<lparr>timeUsed := vec\<rparr>)
        | Inr vec \<Rightarrow>
            (case cumLoop locations d (Sample.Location s) (timeUsedCum c) of
               Inl (p, cum) \<Rightarrow> Inl (p, c\<lparr>timeUsed := vec, timeUsedCum := cum\<rparr>)
             | Inr cum \<Rightarrow> Inr (c\<lparr>timeUsed := vec, timeUsedCum := cum\<rparr>)))"

fun sampleLoop :: "(uint64 \<rightharpoonup> string) \<Rightarrow> Sample list \<Rightarrow> cpuProfileCollector
    \<Rightarrow> (panic \<times> cpuProfileCollector) + cpuProfileCollector" where
  "sampleLoop locations [] c = Inr c"
| "sampleLoop locations (s # ss) c =
     (case sampleStep locations c s of
        Inl e \<Rightarrow> Inl e
      | Inr c' \<Rightarrow> sampleLoop locations ss c')"

text \<open>
  What one scrape sends to the channel: the children of the two counter vectors (one metric
  for each label, in no fixed order) and the two event counters.
\<close>

record published =
  pub_timeUsed :: CounterVec
  pub_timeUsedCum :: CounterVec
  pub_started :: Counter
  pub_stopped :: Counter

definition publish :: "cpuProfileCollector \<Rightarrow> published" where
  "publish c = \<lparr>pub_timeUsed = timeUsed c, pub_timeUsedCum = timeUsedCum c,
                pub_started = started c, pub_stopped = stopped c\<rparr>"

text \<open>A call of \<open>Collect\<close> returns, or panics and leaves the process as it is at the panic.\<close>

datatype outcome = Returned process published | Panicked panic process

text \<open>
  The body of the first \<open>if c.running\<close> of \<open>Collect\<close>: sampling is switched off, the
  profiler's buffer is drained and decoded, the locations are resolved and the samples are
  added to the counters. The decoder \<open>profile.Parse\<close> is a parameter: any function from the
  drained bytes to an error or a profile.
\<close>

definition aggregate :: "(byte list \<Rightarrow> string + Profile) \<Rightarrow> process \<Rightarrow> (panic \<times> process) + process" where
  "aggregate parse w =
     (case drain (SetCPUProfileRate 0 (prof w)) [] of (allData, rt) \<Rightarrow>
        (case parse allData of
           Inl err \<Rightarrow> Inl (ParseError err, w\<lparr>prof := rt\<rparr>)
         | Inr p \<Rightarrow>
             (case sampleLoop (mapLocations (Profile.Location p) (symbols (collector w)))
                     (Profile.Sample p) (collector w) of
                Inl (e, c) \<Rightarrow> Inl (e, w\<lparr>collector := c, prof := rt\<rparr>)
              | Inr c \<Rightarrow> Inr (w\<lparr>collector := c, prof := rt\<rparr>))))"

text \<open>
  \<open>Collect\<close> (named \<open>Collect_metrics\<close> here, \<open>Collect\<close> being HOL's set comprehension):
  the aggregation when running, the four \<open>Collect\<close> calls of the counters, and the sampling
  rate set again when running.
\<close>

definition Collect_metrics :: "(byte list \<Rightarrow> string + Profile) \<Rightarrow> process \<Rightarrow> outcome" where
  "Collect_metrics parse w =
     (case (if running (collector w) then aggregate parse w else Inr w) of
        Inl (e, w') \<Rightarrow> Panicked e w'
      | Inr w1 \<Rightarrow>
          Returned
            (if running (collector w1)
             then w1\<lparr>prof := SetCPUProfileRate cpuProfileRate (prof w1)\<rparr> else w1)
            (publish (collector w1)))"

section \<open>Sequences of calls\<close>

text \<open>
  The mutex serialises \<open>Start\<close>, \<open>Stop\<close> and \<open>Collect\<close>, so a run of the process is a
  sequence of whole calls; between two calls the runtime may add a chunk of profile data to
  its buffer. A panic ends the run.
\<close>

datatype event = CallStart | CallStop | CallCollect | Sampled "byte list"

fun step :: "(byte list \<Rightarrow> string + Profile) \<Rightarrow> event \<Rightarrow> process \<Rightarrow> (panic \<times> process) + process" where
  "step parse CallStart w = Inr (Start w)"
| "step parse CallStop w = Inr (Stop w)"
| "step parse CallCollect w =
     (case Collect_metrics parse w of
        Returned w' out \<Rightarrow> Inr w'
      | Panicked p w' \<Rightarrow> Inl (p, w'))"
| "step parse (Sampled d) w = Inr (w\<lparr>prof := (prof w)\<lparr>profBuf := profBuf (prof w) @ [d]\<rparr>\<rparr>)"

fun run :: "(byte list \<Rightarrow> string + Profile) \<Rightarrow> event list \<Rightarrow> process \<Rightarrow> (panic \<times> process) + process" where
  "run parse [] w = Inr w"
| "run parse (e # es) w =
     (case step parse e w of
        Inl x \<Rightarrow> Inl x
      | Inr w' \<Rightarrow> run parse es w')"

text \<open>The process at the end of a run, completed or ended by a panic.\<close>

definition final :: "(panic \<times> process) + process \<Rightarrow> process" where
  "final r = (case r of Inl (p, w) \<Rightarrow> w | Inr w \<Rightarrow> w)"

section \<open>Properties stated by the specification\<close>

text \<open>No exported counter value is smaller in \<open>c'\<close> than in \<open>c\<close>, and none has gone.\<close>

definition vec_le :: "CounterVec \<Rightarrow> CounterVec \<Rightarrow> bool" where
  "vec_le vec vec' \<longleftrightarrow> (\<forall>f v. vec f = Some v \<longrightarrow> (\<exists>v'. vec' f = Some v' \<and> v \<le> v'))"

definition counters_le :: "cpuProfileCollector \<Rightarrow> cpuProfileCollector \<Rightarrow> bool" where
  "counters_le c c' \<longleftrightarrow>
     vec_le (timeUsed c) (timeUsed c') \<and> vec_le (timeUsedCum c) (timeUsedCum c') \<and>
     started c \<le> started c' \<and> stopped c \<le> stopped c'"

text \<open>The sampling rate agrees with \<open>running\<close>.\<close>

definition consistent :: "process \<Rightarrow> bool" where
  "consistent w \<longleftrightarrow>
     (profileRate (prof w) = cpuProfileRate \<longleftrightarrow> running (collector w)) \<and>
     (profileRate (prof w) = 0 \<longleftrightarrow> \<not> running (collector w))"

text \<open>Sampling is off, or the collector is running and sampling is at the fixed frequency.\<close>

definition rateSound :: "process \<Rightarrow> bool" where
  "rateSound w \<longleftrightarrow>
     profileRate (prof w) = 0 \<or>
     (running (collector w) \<and> profileRate (prof w) = cpuProfileRate)"

text \<open>The address \<open>a\<close> lies in the range of at most one symbol of the table.\<close>

definition atMostOneRange :: "Sym list \<Rightarrow> uint64 \<Rightarrow> bool" where
  "atMostOneRange syms a \<longleftrightarrow> length (filter (\<lambda>s. inRange s a) syms) \<le> 1"

section \<open>Example inputs\<close>

definition symF :: Sym where
  "symF = \<lparr>Name = ''f'', Addr = 100, Size = 50\<rparr>"

definition symG :: Sym where
  "symG = \<lparr>Name = ''g'', Addr = 150, Size = 50\<rparr>"

definition loc1 :: Location where
  "loc1 = \<lparr>ID = 1, Address = 120\<rparr>"

definition loc2 :: Location where
  "loc2 = \<lparr>ID = 2, Address = 130\<rparr>"

definition loc3 :: Location where
  "loc3 = \<lparr>ID = 3, Address = 500\<rparr>"

definition sampleRec :: Sample where
  "sampleRec = \<lparr>Sample.Location = [loc1, loc2], Value = [1, 300000000]\<rparr>"

definition sampleUnknown :: Sample where
  "sampleUnknown = \<lparr>Sample.Location = [loc3, loc1], Value = [1, 500000000]\<rparr>"

definition profile0 :: Profile where
  "profile0 = \<lparr>Profile.Location = [loc1, loc2, loc3], Sample = [sampleRec, sampleUnknown]\<rparr>"

text \<open>Two samples with negative nanoseconds, one at a known and one at an unknown address.\<close>

definition sampleNeg :: Sample where
  "sampleNeg = \<lparr>Sample.Location = [loc1], Value = [1, - 1000000]\<rparr>"

definition profileNeg :: Profile where
  "profileNeg = \<lparr>Profile.Location = [loc1, loc2, loc3], Sample = [sampleNeg]\<rparr>"



text \<open>
  Decoders: one that accepts any input as \<open>profile0\<close>, one that rejects every input, and
  two that accept any input as one of the profiles with negative nanoseconds.
\<close>

definition parseOk :: "byte list \<Rightarrow> string + Profile" where
  "parseOk bs = Inr profile0"

definition parseFail :: "byte list \<Rightarrow> string + Profile" where
  "parseFail bs = Inl ''malformed profile''"

definition parseNeg :: "byte list \<Rightarrow> string + Profile" where
  "parseNeg bs = Inr profileNeg"


definition collector0 :: cpuProfileCollector where
  "collector0 = \<lparr>timeUsed = Map.empty, timeUsedCum = Map.empty, started = 0, stopped = 0,
                  running = False, symbols = [symF]\<rparr>"

definition process0 :: process where
  "process0 = \<lparr>collector = collector0, prof = \<lparr>profileRate = 0, profBuf = [], unread = False\<rparr>\<rparr>"

section \<open>Adding to a counter vector\<close>

lemma AddLabelled_nonneg:
  "0 \<le> d \<Longrightarrow> AddLabelled vec lv d = Inr (vec(lv \<mapsto> reading vec lv + d))"
  by (auto simp: AddLabelled_def WithLabelValues_def Add_def reading_def split: option.splits)

lemma reading_upd: "reading (vec(lv \<mapsto> v)) f = (if f = lv then v else reading vec f)"
  by (simp add: reading_def)

lemma cumLoop_nonneg:
  "0 \<le> d \<Longrightarrow> \<exists>vec'. cumLoop locations d ls vec = Inr vec' \<and>
     (\<forall>f. reading vec' f =
        reading vec f + of_nat (count_list (map (\<lambda>l. index locations (ID l)) ls) f) * d)"
proof (induction ls arbitrary: vec)
  case Nil
  then show ?case by simp
next
  case (Cons l ls)
  let ?v = "vec(index locations (ID l) \<mapsto> reading vec (index locations (ID l)) + d)"
  from Cons.IH [OF Cons.prems, of ?v] obtain vec' where
    v: "cumLoop locations d ls ?v = Inr vec'"
    and r: "\<And>f. reading vec' f =
      reading ?v f + of_nat (count_list (map (\<lambda>l. index locations (ID l)) ls) f) * d"
    by blast
  have "cumLoop locations d (l # ls) vec = Inr vec'"
    using v Cons.prems by (simp add: AddLabelled_nonneg)
  moreover have "\<forall>f. reading vec' f =
      reading vec f + of_nat (count_list (map (\<lambda>l. index locations (ID l)) (l # ls)) f) * d"
    by (simp add: r reading_upd algebra_simps)
  ultimately show ?case by blast
qed

lemma sampleStep_skip:
  "Sample.Location s = [] \<or> length (Value s) < 2 \<Longrightarrow> sampleStep locations c s = Inr c"
  by (auto simp: sampleStep_def)

lemma sampleStep_nonneg:
  assumes "Sample.Location s \<noteq> []" "2 \<le> length (Value s)" "0 \<le> sint (Value s ! 1)"
  shows "\<exists>c'. sampleStep locations c s = Inr c' \<and>
     (\<forall>f. reading (timeUsed c') f = reading (timeUsed c) f +
        (if index locations (ID (hd (Sample.Location s))) = f
         then real_of_int (sint (Value s ! 1)) / 1000000 else 0)) \<and>
     (\<forall>f. reading (timeUsedCum c') f = reading (timeUsedCum c) f +
        of_nat (count_list (map (\<lambda>l. index locations (ID l)) (Sample.Location s)) f) *
          (real_of_int (sint (Value s ! 1)) / 1000000)) \<and>
     started c' = started c \<and> stopped c' = stopped c \<and>
     running c' = running c \<and> symbols c' = symbols c"
proof -
  let ?d = "real_of_int (sint (Value s ! 1)) / 1000000"
  let ?leaf = "index locations (ID (hd (Sample.Location s)))"
  have "0 \<le> real_of_int (sint (Value s ! 1))"
    using assms(3) by (simp only: of_int_0_le_iff)
  then have d: "0 \<le> ?d"
    by (rule divide_nonneg_nonneg) simp
  from cumLoop_nonneg [OF d, of locations "Sample.Location s" "timeUsedCum c"] obtain cum where
    cum: "cumLoop locations ?d (Sample.Location s) (timeUsedCum c) = Inr cum"
    and r: "\<And>f. reading cum f = reading (timeUsedCum c) f +
      of_nat (count_list (map (\<lambda>l. index locations (ID l)) (Sample.Location s)) f) * ?d"
    by blast
  have leaf: "Sample.Location s ! 0 = hd (Sample.Location s)"
    using assms(1) by (simp add: hd_conv_nth)
  have "sampleStep locations c s =
      Inr (c\<lparr>timeUsed := (timeUsed c)(?leaf \<mapsto> reading (timeUsed c) ?leaf + ?d),
             timeUsedCum := cum\<rparr>)"
    using assms(1,2) d cum
    by (simp add: sampleStep_def nanoToMilliDivisor_def AddLabelled_nonneg leaf)
  then show ?thesis
    using r by (auto simp: reading_upd)
qed

text \<open>
  A sample with negative nanoseconds makes \<open>Add\<close> panic at the self-time counter, whose
  child has been created by then; the scrape ends there.
\<close>

lemma AddLabelled_negative:
  "d < 0 \<Longrightarrow> AddLabelled vec lv d = Inl (CounterCannotDecrease, fst (WithLabelValues vec lv))"
  by (auto simp: AddLabelled_def WithLabelValues_def Add_def split: option.splits)

lemma sampleStep_negative:
  assumes "Sample.Location s \<noteq> []" "2 \<le> length (Value s)" "sint (Value s ! 1) < 0"
  shows "sampleStep locations c s =
     Inl (CounterCannotDecrease,
          c\<lparr>timeUsed := fst (WithLabelValues (timeUsed c)
                 (index locations (ID (hd (Sample.Location s)))))\<rparr>)"
proof -
  have "real_of_int (sint (Value s ! 1)) < 0"
    using assms(3) by (simp only: of_int_less_0_iff)
  then have d: "real_of_int (sint (Value s ! 1)) / 1000000 < 0"
    by (rule divide_neg_pos) simp
  have leaf: "Sample.Location s ! 0 = hd (Sample.Location s)"
    using assms(1) by (simp add: hd_conv_nth)
  show ?thesis
    using assms(1,2) d
    by (simp add: sampleStep_def nanoToMilliDivisor_def AddLabelled_negative leaf)
qed

section \<open>The example inputs, evaluated\<close>

lemma mapLocations_example:
  "mapLocations [loc1, loc2, loc3] [symF] = [1 \<mapsto> ''f'', 2 \<mapsto> ''f'']"
  by (simp add: mapLocations_def inRange_def symF_def loc1_def loc2_def loc3_def)

lemma loc_ids: "ID loc1 = 1" "ID loc2 = 2" "ID loc3 = 3"
  by (simp_all add: loc1_def loc2_def loc3_def)

lemma example_names:
  "index (mapLocations [loc1, loc2, loc3] [symF]) (ID loc1) = ''f''"
  "index (mapLocations [loc1, loc2, loc3] [symF]) (ID loc2) = ''f''"
  "index (mapLocations [loc1, loc2, loc3] [symF]) (ID loc3) = ''''"
  by (simp_all add: mapLocations_example index_def loc_ids)

section \<open>Resolution of locations\<close>

lemma symLoop_find:
  "symLoop l syms result =
     (case find (\<lambda>s. inRange s (Address l)) syms of
        None \<Rightarrow> result
      | Some s \<Rightarrow> result(ID l \<mapsto> Name s))"
  by (induction syms) (simp_all add: fun_upd_def)

lemma symLoop_none:
  "\<forall>s\<in>set syms. \<not> inRange s (Address l) \<Longrightarrow> symLoop l syms result = result"
  by (induction syms) simp_all

lemma symLoop_first:
  assumes "i < length syms" "inRange (syms ! i) (Address l)"
    "\<forall>j<i. \<not> inRange (syms ! j) (Address l)"
  shows "symLoop l syms result = result(ID l \<mapsto> Name (syms ! i))"
proof -
  have "find (\<lambda>s. inRange s (Address l)) syms = Some (syms ! i)"
    using assms by (auto simp: find_Some_iff)
  then show ?thesis by (simp add: symLoop_find)
qed

lemma symLoop_other: "k \<noteq> ID l \<Longrightarrow> symLoop l syms result k = result k"
  by (induction syms) simp_all

lemma symLoop_dom:
  "dom (symLoop l syms result) =
     (if \<exists>s\<in>set syms. inRange s (Address l) then insert (ID l) (dom result) else dom result)"
  by (induction syms) auto

lemma locLoop_dom:
  "dom (locLoop locs syms result) =
     dom result \<union> ID ` {l \<in> set locs. \<exists>s\<in>set syms. inRange s (Address l)}"
  by (induction locs arbitrary: result) (auto simp: symLoop_dom)

lemma locLoop_other: "k \<notin> ID ` set locs \<Longrightarrow> locLoop locs syms result k = result k"
  by (induction locs arbitrary: result) (auto simp: symLoop_other)

lemma locLoop_distinct:
  "distinct (map ID locs) \<Longrightarrow> l \<in> set locs \<Longrightarrow>
     locLoop locs syms result (ID l) = symLoop l syms result (ID l)"
proof (induction locs arbitrary: result)
  case Nil
  then show ?case by simp
next
  case (Cons x xs)
  show ?case
  proof (cases "x = l")
    case True
    then have "ID l \<notin> ID ` set xs" using Cons.prems by auto
    then show ?thesis using True by (simp add: locLoop_other)
  next
    case False
    then have l: "l \<in> set xs" using Cons.prems by simp
    then have "ID l \<in> ID ` set xs" by (rule imageI)
    then have ne: "ID l \<noteq> ID x" using Cons.prems(1) by auto
    have "locLoop xs syms (symLoop x syms result) (ID l) =
        symLoop l syms (symLoop x syms result) (ID l)"
      using Cons.IH [OF _ l] Cons.prems by simp
    also have "\<dots> = symLoop l syms result (ID l)"
      using ne by (auto simp: symLoop_find split: option.splits)
    finally show ?thesis by simp
  qed
qed

lemma mapLocations_distinct:
  "distinct (map ID locs) \<Longrightarrow> l \<in> set locs \<Longrightarrow>
     mapLocations locs syms (ID l) = map_option Name (find (\<lambda>s. inRange s (Address l)) syms)"
  by (simp add: mapLocations_def locLoop_distinct symLoop_find split: option.splits)

lemma mapLocations_snoc:
  "mapLocations (locs @ [l]) syms = symLoop l syms (mapLocations locs syms)"
proof -
  have "locLoop (xs @ [l]) syms result = symLoop l syms (locLoop xs syms result)" for xs result
    by (induction xs arbitrary: result) simp_all
  then show ?thesis by (simp add: mapLocations_def)
qed

text \<open>
  The test of \<open>mapLocations\<close> is on 64-bit words. Where \<open>Addr + Size\<close> does not wrap around,
  it is the test on the numbers.
\<close>

lemma inRange_no_wrap:
  "unat (Addr s) + unat (Size s) < 2 ^ 64 \<Longrightarrow>
     inRange s a \<longleftrightarrow> unat (Addr s) \<le> unat a \<and> unat a \<le> unat (Addr s) + unat (Size s)"
  by (simp add: inRange_def word_le_nat_alt unat_word_ariths)

text \<open>
  Claim C2. For a location \<open>l\<close> and a symbol table \<open>syms\<close>, let \<open>i\<close> be the first index of
  the table whose symbol has \<open>Addr \<le> Address l \<le> Addr + Size\<close> (the upper bound included,
  the sum being the 64-bit sum of the source). Then the scan of the symbols stores the name
  of that symbol under the ID of \<open>l\<close>; whatever symbols follow index \<open>i\<close> in the table, the
  result is the same (none of them is looked at); and in the map that \<open>mapLocations\<close>
  returns for locations with distinct IDs, the entry of \<open>l\<close> is that name. \<open>mapLocations\<close>
  runs this scan for each location in turn.
\<close>

theorem mapLocations_first_match:
  "(i < length syms \<and>
    Addr (syms ! i) \<le> Address l \<and> Address l \<le> Addr (syms ! i) + Size (syms ! i) \<and>
    (\<forall>j<i. \<not> (Addr (syms ! j) \<le> Address l \<and> Address l \<le> Addr (syms ! j) + Size (syms ! j))) \<longrightarrow>
      symLoop l syms result = result(ID l \<mapsto> Name (syms ! i)) \<and>
      symLoop l (take (Suc i) syms @ later) result = result(ID l \<mapsto> Name (syms ! i)) \<and>
      (distinct (map ID locs) \<and> l \<in> set locs \<longrightarrow>
         mapLocations locs syms (ID l) = Some (Name (syms ! i)))) \<and>
   mapLocations (locs @ [l]) syms = symLoop l syms (mapLocations locs syms)"
proof (intro conjI impI)
  assume a: "i < length syms \<and>
    Addr (syms ! i) \<le> Address l \<and> Address l \<le> Addr (syms ! i) + Size (syms ! i) \<and>
    (\<forall>j<i. \<not> (Addr (syms ! j) \<le> Address l \<and> Address l \<le> Addr (syms ! j) + Size (syms ! j)))"
  then have i: "i < length syms" and m: "inRange (syms ! i) (Address l)"
    and n: "\<forall>j<i. \<not> inRange (syms ! j) (Address l)"
    by (simp_all add: inRange_def)
  show "symLoop l syms result = result(ID l \<mapsto> Name (syms ! i))"
    using i m n by (rule symLoop_first)
  have "symLoop l (take (Suc i) syms @ later) result =
      result(ID l \<mapsto> Name ((take (Suc i) syms @ later) ! i))"
    by (rule symLoop_first) (use i m n in \<open>simp_all add: nth_append\<close>)
  then show "symLoop l (take (Suc i) syms @ later) result = result(ID l \<mapsto> Name (syms ! i))"
    using i by (simp add: nth_append)
  assume "distinct (map ID locs) \<and> l \<in> set locs"
  then have "mapLocations locs syms (ID l) = symLoop l syms Map.empty (ID l)"
    by (simp add: mapLocations_def locLoop_distinct)
  also have "\<dots> = Some (Name (syms ! i))"
    using symLoop_first [OF i m n, of Map.empty] by simp
  finally show "mapLocations locs syms (ID l) = Some (Name (syms ! i))" .
next
  show "mapLocations (locs @ [l]) syms = symLoop l syms (mapLocations locs syms)"
    by (rule mapLocations_snoc)
qed

text \<open>
  The address 150 lies in the ranges of both \<open>f\<close> (100 to 150) and \<open>g\<close> (150 to 200): the
  symbol that stands first in the table gives the name.
\<close>

theorem mapLocations_first_match_witness:
  "symLoop \<lparr>ID = 7, Address = 150\<rparr> [symG, symF] Map.empty = [7 \<mapsto> ''g''] \<and>
   symLoop \<lparr>ID = 7, Address = 150\<rparr> [symF, symG] Map.empty = [7 \<mapsto> ''f''] \<and>
   mapLocations [loc1, \<lparr>ID = 7, Address = 150\<rparr>] [symF, symG] 7 = Some ''f''"
proof -
  have "symLoop \<lparr>ID = 7, Address = 150\<rparr> [symG, symF] Map.empty = [7 \<mapsto> ''g'']"
    using mapLocations_first_match
      [of 0 "[symG, symF]" "\<lparr>ID = 7, Address = 150\<rparr>" Map.empty "[]" "[]"]
    by (simp add: symG_def)
  moreover have "symLoop \<lparr>ID = 7, Address = 150\<rparr> [symF, symG] Map.empty = [7 \<mapsto> ''f''] \<and>
      mapLocations [loc1, \<lparr>ID = 7, Address = 150\<rparr>] [symF, symG] 7 = Some ''f''"
    using mapLocations_first_match
      [of 0 "[symF, symG]" "\<lparr>ID = 7, Address = 150\<rparr>" Map.empty "[]"
        "[loc1, \<lparr>ID = 7, Address = 150\<rparr>]"]
    by (simp add: symF_def loc1_def)
  ultimately show ?thesis by simp
qed

section \<open>Facts on lists\<close>




section \<open>The keys of the returned map\<close>

text \<open>
  Claim C10. The keys of the map that \<open>mapLocations\<close> returns are exactly the IDs of the
  locations whose address is in the range of some symbol. For a location whose address is
  in no range the scan stores nothing (the map is left as it is), so that among locations
  with distinct IDs its ID is not a key of the returned map; and reading a key that the
  map does not hold gives the empty string, which is where the label of the unknown
  function comes from.
\<close>

theorem mapLocations_entries:
  "dom (mapLocations locs syms) = ID ` {l \<in> set locs. \<exists>s\<in>set syms. inRange s (Address l)} \<and>
   ((\<forall>s\<in>set syms. \<not> inRange s (Address l)) \<longrightarrow>
      symLoop l syms result = result \<and>
      (distinct (map ID locs) \<and> l \<in> set locs \<longrightarrow>
         mapLocations locs syms (ID l) = None \<and> index (mapLocations locs syms) (ID l) = '''')) \<and>
   (mapLocations locs syms k = None \<longrightarrow> index (mapLocations locs syms) k = '''')"
proof (intro conjI impI)
  show "dom (mapLocations locs syms) = ID ` {l \<in> set locs. \<exists>s\<in>set syms. inRange s (Address l)}"
    by (simp add: mapLocations_def locLoop_dom)
next
  assume n: "\<forall>s\<in>set syms. \<not> inRange s (Address l)"
  then show "symLoop l syms result = result" by (rule symLoop_none)
  assume "distinct (map ID locs) \<and> l \<in> set locs"
  then have "mapLocations locs syms (ID l) =
      map_option Name (find (\<lambda>s. inRange s (Address l)) syms)"
    by (simp add: mapLocations_distinct)
  also have "\<dots> = None" using n by (simp add: find_None_iff)
  finally show "mapLocations locs syms (ID l) = None" .
  then show "index (mapLocations locs syms) (ID l) = ''''" by (simp add: index_def)
next
  assume "mapLocations locs syms k = None"
  then show "index (mapLocations locs syms) k = ''''" by (simp add: index_def)
qed

theorem mapLocations_entries_witness:
  "dom (mapLocations [loc1, loc2, loc3] [symF]) = {1, 2} \<and>
   mapLocations [loc1, loc2, loc3] [symF] (ID loc3) = None \<and>
   index (mapLocations [loc1, loc2, loc3] [symF]) (ID loc3) = ''''"
proof -
  have n: "\<forall>s\<in>set [symF]. \<not> inRange s (Address loc3)"
    by (simp add: inRange_def symF_def loc3_def)
  have d: "distinct (map ID [loc1, loc2, loc3]) \<and> loc3 \<in> set [loc1, loc2, loc3]"
    by (simp add: loc_ids)
  have "mapLocations [loc1, loc2, loc3] [symF] (ID loc3) = None \<and>
      index (mapLocations [loc1, loc2, loc3] [symF]) (ID loc3) = ''''"
    using mapLocations_entries [of "[loc1, loc2, loc3]" "[symF]" loc3] n d by blast
  moreover have "dom (mapLocations [loc1, loc2, loc3] [symF]) = {1, 2}"
    by (auto simp: mapLocations_example)
  ultimately show ?thesis by simp
qed

text \<open>
  Every name in the returned map is the name of a symbol of the table. So with a table
  that has no symbol of empty name, the empty label is read for a key exactly when the map
  does not hold the key.
\<close>

lemma locLoop_names:
  "locLoop locs syms result k = Some n \<Longrightarrow> result k = Some n \<or> n \<in> Name ` set syms"
proof (induction locs arbitrary: result)
  case Nil
  then show ?case by simp
next
  case (Cons l ls)
  from Cons.IH [OF Cons.prems [simplified]]
  have "symLoop l syms result k = Some n \<or> n \<in> Name ` set syms" .
  then show ?case
    by (auto simp: symLoop_find find_Some_iff split: option.splits if_splits)
qed

lemma empty_label_only_by_default:
  "\<forall>s\<in>set syms. Name s \<noteq> '''' \<Longrightarrow>
     index (mapLocations locs syms) k = '''' \<longleftrightarrow> mapLocations locs syms k = None"
proof (cases "mapLocations locs syms k")
  case None
  then show ?thesis by (simp add: index_def)
next
  case (Some n)
  assume a: "\<forall>s\<in>set syms. Name s \<noteq> ''''"
  have "n \<in> Name ` set syms"
    using locLoop_names [of locs syms Map.empty k n] Some by (simp add: mapLocations_def)
  then have "n \<noteq> ''''" using a by auto
  then show ?thesis using Some by (simp add: index_def)
qed

section \<open>Ranges that overlap\<close>

lemma atMostOne_find:
  assumes "atMostOneRange syms a" and "s \<in> set syms" and "inRange s a"
  shows "find (\<lambda>s. inRange s a) syms = Some s"
proof -
  let ?m = "filter (\<lambda>s. inRange s a) syms"
  have s: "s \<in> set ?m" using assms(2,3) by simp
  then obtain t where t: "find (\<lambda>s. inRange s a) syms = Some t"
    using assms(2,3) by (cases "find (\<lambda>s. inRange s a) syms") (auto simp: find_None_iff)
  then have "t \<in> set ?m"
    by (auto simp: find_Some_iff)
  moreover have "length ?m \<le> 1" using assms(1) by (simp add: atMostOneRange_def)
  ultimately have "t = s"
    using s by (cases ?m) auto
  then show ?thesis using t by simp
qed

text \<open>
  Claim C9, as stated, fails: nothing in the code checks or establishes that the ranges of
  the table are disjoint, and with the upper bound included two adjacent symbols share
  their boundary address. Here \<open>f\<close> covers 100 to 150 and \<open>g\<close> covers 150 to 200, and the
  address 150 lies in both ranges.
\<close>

theorem adjacent_symbols_share_boundary:
  "inRange symF 150 \<and> inRange symG 150 \<and> symF \<noteq> symG \<and> \<not> atMostOneRange [symF, symG] 150"
  by (simp add: atMostOneRange_def inRange_def symF_def symG_def)

text \<open>
  Claim C9, amended. An address may lie in the ranges of several symbols. For an address
  that lies in the range of at most one symbol of the table, the scan stores the name of
  that symbol, wherever it stands in the table; in general the scan stores the name of the
  first symbol in table order whose range contains the address, or nothing when there is
  none.
\<close>

theorem unique_range_is_resolved:
  "(atMostOneRange syms (Address l) \<and> s \<in> set syms \<and> inRange s (Address l) \<longrightarrow>
      symLoop l syms result = result(ID l \<mapsto> Name s)) \<and>
   ((\<exists>i<length syms. inRange (syms ! i) (Address l) \<and>
        (\<forall>j<i. \<not> inRange (syms ! j) (Address l)) \<and>
        symLoop l syms result = result(ID l \<mapsto> Name (syms ! i))) \<or>
    ((\<forall>s\<in>set syms. \<not> inRange s (Address l)) \<and> symLoop l syms result = result))"
proof (intro conjI impI)
  assume "atMostOneRange syms (Address l) \<and> s \<in> set syms \<and> inRange s (Address l)"
  then have "find (\<lambda>s. inRange s (Address l)) syms = Some s"
    using atMostOne_find by blast
  then show "symLoop l syms result = result(ID l \<mapsto> Name s)"
    by (simp add: symLoop_find)
next
  show "(\<exists>i<length syms. inRange (syms ! i) (Address l) \<and>
        (\<forall>j<i. \<not> inRange (syms ! j) (Address l)) \<and>
        symLoop l syms result = result(ID l \<mapsto> Name (syms ! i))) \<or>
    ((\<forall>s\<in>set syms. \<not> inRange s (Address l)) \<and> symLoop l syms result = result)"
  proof (cases "find (\<lambda>s. inRange s (Address l)) syms")
    case None
    then have "symLoop l syms result = result" by (simp add: symLoop_find)
    moreover from None have "\<forall>s\<in>set syms. \<not> inRange s (Address l)"
      by (simp add: find_None_iff)
    ultimately show ?thesis by blast
  next
    case (Some t)
    then obtain i where "i < length syms" "inRange (syms ! i) (Address l)" "t = syms ! i"
      "\<forall>j<i. \<not> inRange (syms ! j) (Address l)"
      by (auto simp: find_Some_iff)
    moreover have "symLoop l syms result = result(ID l \<mapsto> Name t)"
      using Some by (simp add: symLoop_find)
    ultimately show ?thesis by blast
  qed
qed

theorem unique_range_is_resolved_witness:
  "atMostOneRange [symG, symF] 120 \<and>
   symLoop loc1 [symG, symF] Map.empty = [1 \<mapsto> ''f''] \<and>
   symLoop \<lparr>ID = 7, Address = 150\<rparr> [symF, symG] Map.empty = [7 \<mapsto> ''f'']"
proof -
  have a: "atMostOneRange [symG, symF] (Address loc1) \<and> symF \<in> set [symG, symF] \<and>
      inRange symF (Address loc1)"
    by (simp add: atMostOneRange_def inRange_def symF_def symG_def loc1_def)
  have "symLoop loc1 [symG, symF] Map.empty = Map.empty(ID loc1 \<mapsto> Name symF)"
    using unique_range_is_resolved [of "[symG, symF]" loc1 symF Map.empty] a by blast
  moreover have "symLoop \<lparr>ID = 7, Address = 150\<rparr> [symF, symG] Map.empty = [7 \<mapsto> ''f'']"
    by (simp add: inRange_def symF_def)
  ultimately show ?thesis
    using a by (simp add: loc1_def symF_def)
qed

section \<open>The drain loop\<close>

lemma drain_concat:
  "drain rt allData = (allData @ concat (profBuf rt), rt\<lparr>profBuf := [], unread := False\<rparr>)"
proof (induction "profBuf rt" arbitrary: rt allData)
  case Nil
  then have b: "profBuf rt = []" by simp
  have "drain rt allData = (allData, rt\<lparr>unread := False\<rparr>)"
    by (subst drain.simps) (simp add: CPUProfile_def b)
  then show ?case using b by simp
next
  case (Cons d ds)
  from Cons.hyps(2) have b: "profBuf rt = d # ds" by simp
  have "drain rt allData = drain (rt\<lparr>profBuf := ds\<rparr>) (allData @ d)"
    by (subst drain.simps) (simp add: CPUProfile_def b)
  also have "\<dots> = ((allData @ d) @ concat ds, rt\<lparr>profBuf := ds, profBuf := [], unread := False\<rparr>)"
    using Cons.hyps(1) [of "rt\<lparr>profBuf := ds\<rparr>" "allData @ d"] by simp
  finally show ?case by (simp add: b)
qed

section \<open>Counters never decrease\<close>

lemma vec_le_refl: "vec_le vec vec"
  by (simp add: vec_le_def)

lemma vec_le_trans: "vec_le a b \<Longrightarrow> vec_le b c \<Longrightarrow> vec_le a c"
  unfolding vec_le_def by (meson order_trans)

lemma counters_le_refl: "counters_le c c"
  by (simp add: counters_le_def vec_le_refl)

lemma counters_le_trans: "counters_le a b \<Longrightarrow> counters_le b c \<Longrightarrow> counters_le a c"
  unfolding counters_le_def by (meson vec_le_trans order_trans)

lemma AddLabelled_mono:
  "AddLabelled vec lv d = Inr vec' \<or> AddLabelled vec lv d = Inl (p, vec') \<Longrightarrow> vec_le vec vec'"
  by (auto simp: AddLabelled_def WithLabelValues_def Add_def vec_le_def
      split: option.splits if_splits)

lemma cumLoop_mono:
  "cumLoop locations d ls vec = Inr vec' \<or> cumLoop locations d ls vec = Inl (p, vec') \<Longrightarrow>
     vec_le vec vec'"
proof (induction ls arbitrary: vec)
  case Nil
  then show ?case by (simp add: vec_le_refl)
next
  case (Cons l ls)
  show ?case
  proof (cases "AddLabelled vec (index locations (ID l)) d")
    case (Inl e)
    then have "AddLabelled vec (index locations (ID l)) d = Inl (p, vec')"
      using Cons.prems by simp
    then show ?thesis using AddLabelled_mono by blast
  next
    case (Inr v)
    then have "vec_le vec v" using AddLabelled_mono by blast
    moreover have "vec_le v vec'" using Cons.IH [of v] Cons.prems Inr by simp
    ultimately show ?thesis by (rule vec_le_trans)
  qed
qed

lemma sampleStep_mono:
  assumes "sampleStep locations c s = Inr c' \<or> sampleStep locations c s = Inl (p, c')"
  shows "counters_le c c' \<and> running c' = running c \<and> symbols c' = symbols c"
proof (cases "length (Sample.Location s) = 0 \<or> length (Value s) < 2")
  case True
  then show ?thesis using assms by (auto simp: sampleStep_def counters_le_refl)
next
  case False
  let ?d = "real_of_int (sint (Value s ! 1)) / nanoToMilliDivisor"
  let ?lv = "index locations (ID (Sample.Location s ! 0))"
  show ?thesis
  proof (cases "AddLabelled (timeUsed c) ?lv ?d")
    case (Inl e)
    obtain q vec where e: "e = (q, vec)" by (cases e)
    have le: "vec_le (timeUsed c) vec" using Inl e AddLabelled_mono by blast
    have "c' = c\<lparr>timeUsed := vec\<rparr>"
      using assms False Inl e by (simp add: sampleStep_def)
    then show ?thesis using le by (simp add: counters_le_def vec_le_refl)
  next
    case (Inr vec)
    note self = this
    have le: "vec_le (timeUsed c) vec" using Inr AddLabelled_mono by blast
    show ?thesis
    proof (cases "cumLoop locations ?d (Sample.Location s) (timeUsedCum c)")
      case (Inl e)
      obtain q cum where e: "e = (q, cum)" by (cases e)
      have le2: "vec_le (timeUsedCum c) cum" using Inl e cumLoop_mono by blast
      have "c' = c\<lparr>timeUsed := vec, timeUsedCum := cum\<rparr>"
        using assms False self Inl e by (simp add: sampleStep_def)
      then show ?thesis using le le2 by (simp add: counters_le_def)
    next
      case (Inr cum)
      have le2: "vec_le (timeUsedCum c) cum" using Inr cumLoop_mono by blast
      have "c' = c\<lparr>timeUsed := vec, timeUsedCum := cum\<rparr>"
        using assms False self Inr by (simp add: sampleStep_def)
      then show ?thesis using le le2 by (simp add: counters_le_def)
    qed
  qed
qed

lemma sampleLoop_mono:
  "sampleLoop locations ss c = Inr c' \<or> sampleLoop locations ss c = Inl (p, c') \<Longrightarrow>
     counters_le c c' \<and> running c' = running c \<and> symbols c' = symbols c"
proof (induction ss arbitrary: c)
  case Nil
  then show ?case by (simp add: counters_le_refl)
next
  case (Cons s ss)
  show ?case
  proof (cases "sampleStep locations c s")
    case (Inl e)
    then have "sampleStep locations c s = Inl (p, c')" using Cons.prems by simp
    then show ?thesis using sampleStep_mono by blast
  next
    case (Inr c1)
    then have 1: "counters_le c c1 \<and> running c1 = running c \<and> symbols c1 = symbols c"
      using sampleStep_mono by blast
    have 2: "counters_le c1 c' \<and> running c' = running c1 \<and> symbols c' = symbols c1"
      using Cons.IH [of c1] Cons.prems Inr by simp
    from 1 2 show ?thesis using counters_le_trans by auto
  qed
qed

section \<open>The cases of a scrape\<close>

lemma aggregate_cases:
  "aggregate parse w =
     (case parse (concat (profBuf (prof w))) of
        Inl err \<Rightarrow> Inl (ParseError err, w\<lparr>prof := (prof w)\<lparr>profileRate := 0, profBuf := [], unread := False\<rparr>\<rparr>)
      | Inr p \<Rightarrow>
          (case sampleLoop (mapLocations (Profile.Location p) (symbols (collector w)))
                  (Profile.Sample p) (collector w) of
             Inl (e, c) \<Rightarrow>
               Inl (e, w\<lparr>collector := c, prof := (prof w)\<lparr>profileRate := 0, profBuf := [], unread := False\<rparr>\<rparr>)
           | Inr c \<Rightarrow>
               Inr (w\<lparr>collector := c, prof := (prof w)\<lparr>profileRate := 0, profBuf := [], unread := False\<rparr>\<rparr>)))"
  by (simp add: aggregate_def drain_concat SetCPUProfileRate_def split: sum.splits prod.splits)

lemma Collect_metrics_stopped:
  "\<not> running (collector w) \<Longrightarrow> Collect_metrics parse w = Returned w (publish (collector w))"
  by (simp add: Collect_metrics_def)

lemma Collect_metrics_parse_error:
  "running (collector w) \<Longrightarrow> parse (concat (profBuf (prof w))) = Inl err \<Longrightarrow>
     Collect_metrics parse w =
       Panicked (ParseError err) (w\<lparr>prof := (prof w)\<lparr>profileRate := 0, profBuf := [], unread := False\<rparr>\<rparr>)"
  by (simp add: Collect_metrics_def aggregate_cases)

lemma Collect_metrics_counter_panic:
  "running (collector w) \<Longrightarrow> parse (concat (profBuf (prof w))) = Inr p \<Longrightarrow>
     sampleLoop (mapLocations (Profile.Location p) (symbols (collector w)))
       (Profile.Sample p) (collector w) = Inl (e, c) \<Longrightarrow>
     Collect_metrics parse w =
       Panicked e (w\<lparr>collector := c, prof := (prof w)\<lparr>profileRate := 0, profBuf := [], unread := False\<rparr>\<rparr>)"
  by (simp add: Collect_metrics_def aggregate_cases)

lemma Collect_metrics_returns:
  assumes "running (collector w)" and "parse (concat (profBuf (prof w))) = Inr p"
    and "sampleLoop (mapLocations (Profile.Location p) (symbols (collector w)))
       (Profile.Sample p) (collector w) = Inr c"
  shows "Collect_metrics parse w =
       Returned (w\<lparr>collector := c,
           prof := (prof w)\<lparr>profileRate := cpuProfileRate, profBuf := [], unread := True\<rparr>\<rparr>) (publish c)"
proof -
  have "running c = running (collector w)"
    using assms(3) sampleLoop_mono by blast
  then show ?thesis
    using assms
    by (simp add: Collect_metrics_def aggregate_cases SetCPUProfileRate_def cpuProfileRate_def)
qed

lemma Collect_metrics_mono:
  assumes "Collect_metrics parse w = Returned w' out \<or> Collect_metrics parse w = Panicked e w'"
  shows "counters_le (collector w) (collector w')"
proof (cases "running (collector w)")
  case False
  then show ?thesis using assms by (auto simp: Collect_metrics_stopped counters_le_refl)
next
  case True
  show ?thesis
  proof (cases "parse (concat (profBuf (prof w)))")
    case (Inl err)
    then show ?thesis
      using assms True by (auto simp: Collect_metrics_parse_error counters_le_refl)
  next
    case (Inr p)
    note parsed = this
    show ?thesis
    proof (cases "sampleLoop (mapLocations (Profile.Location p) (symbols (collector w)))
        (Profile.Sample p) (collector w)")
      case (Inl x)
      obtain q c where x: "x = (q, c)" by (cases x)
      have "counters_le (collector w) c"
        using Inl x sampleLoop_mono by blast
      then show ?thesis
        using assms Collect_metrics_counter_panic [of w parse p q c] True parsed Inl x by auto
    next
      case (Inr c)
      have "counters_le (collector w) c"
        using Inr sampleLoop_mono by blast
      then show ?thesis
        using assms Collect_metrics_returns [of w parse p c] True parsed Inr by auto
    qed
  qed
qed

lemma Start_mono: "counters_le (collector w) (collector (Start w))"
  by (simp add: Start_def counters_le_def vec_le_refl Inc_def)

lemma Stop_mono: "counters_le (collector w) (collector (Stop w))"
  by (simp add: Stop_def counters_le_def vec_le_refl Inc_def)

lemma step_mono:
  assumes "step parse e w = Inr w' \<or> step parse e w = Inl (p, w')"
  shows "counters_le (collector w) (collector w')"
proof (cases e)
  case CallStart
  then show ?thesis using assms by (auto simp: Start_mono)
next
  case CallStop
  then show ?thesis using assms by (auto simp: Stop_mono)
next
  case CallCollect
  then show ?thesis
    using assms Collect_metrics_mono [of parse w] by (auto split: outcome.splits)
next
  case (Sampled d)
  then show ?thesis using assms by (auto simp: counters_le_refl)
qed

lemma run_mono:
  "run parse es w = Inr w' \<or> run parse es w = Inl (p, w') \<Longrightarrow>
     counters_le (collector w) (collector w')"
proof (induction es arbitrary: w)
  case Nil
  then show ?case by (simp add: counters_le_refl)
next
  case (Cons e es)
  show ?case
  proof (cases "step parse e w")
    case (Inl x)
    then have "step parse e w = Inl (p, w')" using Cons.prems by simp
    then show ?thesis using step_mono by blast
  next
    case (Inr w1)
    then have "counters_le (collector w) (collector w1)" using step_mono by blast
    moreover have "counters_le (collector w1) (collector w')"
      using Cons.IH [of w1] Cons.prems Inr by simp
    ultimately show ?thesis by (rule counters_le_trans)
  qed
qed

section \<open>The example scrape\<close>

lemma sampleStep_example1:
  "sampleStep (mapLocations [loc1, loc2, loc3] [symF]) c sampleRec =
     Inr (c\<lparr>timeUsed := (timeUsed c)(''f'' \<mapsto> reading (timeUsed c) ''f'' + 300),
            timeUsedCum := (timeUsedCum c)(''f'' \<mapsto> reading (timeUsedCum c) ''f'' + 600)\<rparr>)"
  by (simp add: sampleStep_def sampleRec_def example_names nanoToMilliDivisor_def
      AddLabelled_nonneg reading_upd add.commute)

lemma sampleStep_example2:
  "sampleStep (mapLocations [loc1, loc2, loc3] [symF]) c sampleUnknown =
     Inr (c\<lparr>timeUsed := (timeUsed c)('''' \<mapsto> reading (timeUsed c) '''' + 500),
            timeUsedCum := (timeUsedCum c)('''' \<mapsto> reading (timeUsedCum c) '''' + 500,
               ''f'' \<mapsto> reading (timeUsedCum c) ''f'' + 500)\<rparr>)"
  by (simp add: sampleStep_def sampleUnknown_def example_names nanoToMilliDivisor_def
      AddLabelled_nonneg reading_upd add.commute)

lemma Start_process0:
  "Start process0 =
     \<lparr>collector = collector0\<lparr>running := True, started := 1\<rparr>,
      prof = \<lparr>profileRate = 100, profBuf = [], unread = True\<rparr>\<rparr>"
  by (simp add: Start_def process0_def collector0_def Inc_def SetCPUProfileRate_def
      cpuProfileRate_def)

lemma scrape_example:
  "Collect_metrics parseOk
     \<lparr>collector = collector0\<lparr>running := True, started := 1\<rparr>,
      prof = \<lparr>profileRate = 100, profBuf = b, unread = True\<rparr>\<rparr> =
     Returned
       \<lparr>collector = \<lparr>timeUsed = [''f'' \<mapsto> 300, '''' \<mapsto> 500],
                      timeUsedCum = [''f'' \<mapsto> 1100, '''' \<mapsto> 500],
                      started = 1, stopped = 0, running = True, symbols = [symF]\<rparr>,
        prof = \<lparr>profileRate = 100, profBuf = [], unread = True\<rparr>\<rparr>
       \<lparr>pub_timeUsed = [''f'' \<mapsto> 300, '''' \<mapsto> 500],
        pub_timeUsedCum = [''f'' \<mapsto> 1100, '''' \<mapsto> 500],
        pub_started = 1, pub_stopped = 0\<rparr>"
proof -
  let ?w = "\<lparr>collector = collector0\<lparr>running := True, started := 1\<rparr>,
      prof = \<lparr>profileRate = 100, profBuf = b, unread = True\<rparr>\<rparr>"
  let ?c = "\<lparr>timeUsed = [''f'' \<mapsto> 300, '''' \<mapsto> 500], timeUsedCum = [''f'' \<mapsto> 1100, '''' \<mapsto> 500],
           started = 1, stopped = 0, running = True, symbols = [symF]\<rparr>"
  have r: "running (collector ?w)"
    by simp
  have p: "parseOk (concat (profBuf (prof ?w))) = Inr profile0"
    by (simp add: parseOk_def)
  have l: "sampleLoop (mapLocations (Profile.Location profile0) (symbols (collector ?w)))
      (Profile.Sample profile0) (collector ?w) = Inr ?c"
    by (simp add: profile0_def collector0_def sampleStep_example1 sampleStep_example2
        reading_def fun_upd_twist)
  show ?thesis
    unfolding Collect_metrics_returns [of ?w parseOk profile0 ?c, OF r p l]
    by (simp add: publish_def cpuProfileRate_def)
qed

lemma run_example:
  "run parseOk [CallStart, Sampled [1], CallCollect, CallStop] process0 =
     Inr \<lparr>collector = \<lparr>timeUsed = [''f'' \<mapsto> 300, '''' \<mapsto> 500],
                          timeUsedCum = [''f'' \<mapsto> 1100, '''' \<mapsto> 500],
                          started = 1, stopped = 1, running = False, symbols = [symF]\<rparr>,
            prof = \<lparr>profileRate = 0, profBuf = [], unread = True\<rparr>\<rparr>"
  by (simp add: Start_process0 scrape_example Stop_def Inc_def SetCPUProfileRate_def)

section \<open>Aggregation over a running scrape\<close>

text \<open>
  The sample loop of a scrape over samples without negative nanoseconds: it returns, and
  each counter has grown by the sum over the samples of what each of them adds to it.
\<close>

lemma sampleLoop_totals:
  assumes "\<forall>s\<in>set ss. Sample.Location s \<noteq> [] \<and> 2 \<le> length (Value s) \<longrightarrow> 0 \<le> sint (Value s ! 1)"
  shows "\<exists>c'. sampleLoop locations ss c = Inr c' \<and>
     (\<forall>f. reading (timeUsed c') f = reading (timeUsed c) f +
        (\<Sum>s\<leftarrow>ss.
           if Sample.Location s = [] \<or> length (Value s) < 2 then 0
           else if index locations (ID (hd (Sample.Location s))) = f
             then real_of_int (sint (Value s ! 1)) / 1000000 else 0)) \<and>
     (\<forall>f. reading (timeUsedCum c') f = reading (timeUsedCum c) f +
        (\<Sum>s\<leftarrow>ss.
           if Sample.Location s = [] \<or> length (Value s) < 2 then 0
           else of_nat (count_list (map (\<lambda>l. index locations (ID l)) (Sample.Location s)) f) *
             (real_of_int (sint (Value s ! 1)) / 1000000)))"
  using assms
proof (induction ss arbitrary: c)
  case Nil
  then show ?case by simp
next
  case (Cons s ss)
  let ?self = "\<lambda>s f. if Sample.Location s = [] \<or> length (Value s) < 2 then 0
           else if index locations (ID (hd (Sample.Location s))) = f
             then real_of_int (sint (Value s ! 1)) / 1000000 else 0"
  let ?cum = "\<lambda>s f. if Sample.Location s = [] \<or> length (Value s) < 2 then 0
           else of_nat (count_list (map (\<lambda>l. index locations (ID l)) (Sample.Location s)) f) *
             (real_of_int (sint (Value s ! 1)) / 1000000)"
  have "\<exists>c1. sampleStep locations c s = Inr c1 \<and>
      (\<forall>f. reading (timeUsed c1) f = reading (timeUsed c) f + ?self s f) \<and>
      (\<forall>f. reading (timeUsedCum c1) f = reading (timeUsedCum c) f + ?cum s f)"
  proof (cases "Sample.Location s = [] \<or> length (Value s) < 2")
    case True
    then show ?thesis
      using sampleStep_skip [of s locations c] by auto
  next
    case False
    then have v: "Sample.Location s \<noteq> []" "2 \<le> length (Value s)" by auto
    then have "0 \<le> sint (Value s ! 1)" using Cons.prems by simp
    from sampleStep_nonneg [OF v this, of locations c] show ?thesis
      using False by auto
  qed
  then obtain c1 where 1: "sampleStep locations c s = Inr c1"
    and s1: "\<And>f. reading (timeUsed c1) f = reading (timeUsed c) f + ?self s f"
    and u1: "\<And>f. reading (timeUsedCum c1) f = reading (timeUsedCum c) f + ?cum s f"
    by blast
  from Cons.IH [of c1] Cons.prems obtain c' where 2: "sampleLoop locations ss c1 = Inr c'"
    and s2: "\<And>f. reading (timeUsed c') f = reading (timeUsed c1) f + (\<Sum>s\<leftarrow>ss. ?self s f)"
    and u2: "\<And>f. reading (timeUsedCum c') f = reading (timeUsedCum c1) f + (\<Sum>s\<leftarrow>ss. ?cum s f)"
    by auto
  have "sampleLoop locations (s # ss) c = Inr c'"
    using 1 2 by simp
  moreover have "\<forall>f. reading (timeUsed c') f = reading (timeUsed c) f + (\<Sum>s\<leftarrow>s # ss. ?self s f)"
    by (simp only: s1 s2 sum_list.Cons list.map add.assoc) simp
  moreover have "\<forall>f. reading (timeUsedCum c') f =
      reading (timeUsedCum c) f + (\<Sum>s\<leftarrow>s # ss. ?cum s f)"
    by (simp only: u1 u2 sum_list.Cons list.map add.assoc) simp
  ultimately show ?case by blast
qed

lemma drained_bytes:
  "fst (drain (SetCPUProfileRate 0 (prof w)) []) = concat (profBuf (prof w))"
  by (simp add: drain_concat SetCPUProfileRate_def)

lemma running_scrape_totals:
  assumes "running (collector w)" and "parse (concat (profBuf (prof w))) = Inr p"
    and "\<forall>s\<in>set (Profile.Sample p).
      Sample.Location s \<noteq> [] \<and> 2 \<le> length (Value s) \<longrightarrow> 0 \<le> sint (Value s ! 1)"
  shows "\<exists>w' out. Collect_metrics parse w = Returned w' out \<and>
     (\<forall>f. reading (timeUsed (collector w')) f = reading (timeUsed (collector w)) f +
        (\<Sum>s\<leftarrow>Profile.Sample p.
           if Sample.Location s = [] \<or> length (Value s) < 2 then 0
           else if index (mapLocations (Profile.Location p) (symbols (collector w)))
                  (ID (hd (Sample.Location s))) = f
             then real_of_int (sint (Value s ! 1)) / 1000000 else 0)) \<and>
     (\<forall>f. reading (timeUsedCum (collector w')) f = reading (timeUsedCum (collector w)) f +
        (\<Sum>s\<leftarrow>Profile.Sample p.
           if Sample.Location s = [] \<or> length (Value s) < 2 then 0
           else of_nat (count_list (map (\<lambda>l. index (mapLocations (Profile.Location p)
                  (symbols (collector w))) (ID l)) (Sample.Location s)) f) *
             (real_of_int (sint (Value s ! 1)) / 1000000))) \<and>
     pub_timeUsed out = timeUsed (collector w') \<and>
     pub_timeUsedCum out = timeUsedCum (collector w')"
proof -
  let ?locs = "mapLocations (Profile.Location p) (symbols (collector w))"
  from sampleLoop_totals [OF assms(3), of ?locs "collector w"] obtain c' where
    l: "sampleLoop ?locs (Profile.Sample p) (collector w) = Inr c'"
    and s: "\<And>f. reading (timeUsed c') f = reading (timeUsed (collector w)) f +
        (\<Sum>s\<leftarrow>Profile.Sample p.
           if Sample.Location s = [] \<or> length (Value s) < 2 then 0
           else if index ?locs (ID (hd (Sample.Location s))) = f
             then real_of_int (sint (Value s ! 1)) / 1000000 else 0)"
    and u: "\<And>f. reading (timeUsedCum c') f = reading (timeUsedCum (collector w)) f +
        (\<Sum>s\<leftarrow>Profile.Sample p.
           if Sample.Location s = [] \<or> length (Value s) < 2 then 0
           else of_nat (count_list (map (\<lambda>l. index ?locs (ID l)) (Sample.Location s)) f) *
             (real_of_int (sint (Value s ! 1)) / 1000000))"
    by blast
  have "Collect_metrics parse w =
      Returned (w\<lparr>collector := c',
          prof := (prof w)\<lparr>profileRate := cpuProfileRate, profBuf := [], unread := True\<rparr>\<rparr>)
        (publish c')"
    using assms(1,2) l by (rule Collect_metrics_returns)
  then show ?thesis
    using s u by (simp add: publish_def)
qed

text \<open>
  Claim C1, as stated, fails for a sample whose second value is negative: the increment
  \<open>Value[1] / 1000000\<close> is then negative, \<open>Add\<close> panics, and the scrape aborts with no
  counter changed by the sample. Here the collector was started and the decoded profile
  has one sample of \<open>f\<close> with two values, the second \<open>- 1000000\<close> nanoseconds, that is
  \<open>- 1\<close> ms: the scrape panics, and the self time of \<open>f\<close> reads 0 as before and not
  \<open>0 + (- 1)\<close>.
\<close>

theorem negative_sample_aborts_scrape:
  "Sample.Location sampleNeg = [loc1] \<and> length (Value sampleNeg) = 2 \<and>
   real_of_int (sint (Value sampleNeg ! 1)) / 1000000 = - 1 \<and>
   Profile.Sample profileNeg = [sampleNeg] \<and>
   running (collector (Start process0)) \<and>
   reading (timeUsed (collector (Start process0))) ''f'' = 0 \<and>
   Collect_metrics parseNeg (Start process0) =
     Panicked CounterCannotDecrease
       \<lparr>collector = collector0\<lparr>running := True, started := 1, timeUsed := [''f'' \<mapsto> 0]\<rparr>,
        prof = \<lparr>profileRate = 0, profBuf = [], unread = False\<rparr>\<rparr> \<and>
   reading [''f'' \<mapsto> 0] ''f'' \<noteq> 0 + (- 1)"
proof -
  let ?w = "Start process0"
  have r: "running (collector ?w)"
    by (simp add: Start_process0)
  have p: "parseNeg (concat (profBuf (prof ?w))) = Inr profileNeg"
    by (simp add: parseNeg_def)
  have st: "sampleStep (mapLocations [loc1, loc2, loc3] [symF])
      (collector0\<lparr>running := True, started := 1\<rparr>) sampleNeg =
      Inl (CounterCannotDecrease, collector0\<lparr>running := True, started := 1, timeUsed := [''f'' \<mapsto> 0]\<rparr>)"
    using sampleStep_negative [of sampleNeg "mapLocations [loc1, loc2, loc3] [symF]"
        "collector0\<lparr>running := True, started := 1\<rparr>"]
    by (simp add: sampleNeg_def example_names WithLabelValues_def collector0_def)
  have l: "sampleLoop (mapLocations (Profile.Location profileNeg) (symbols (collector ?w)))
      (Profile.Sample profileNeg) (collector ?w) =
      Inl (CounterCannotDecrease, collector0\<lparr>running := True, started := 1, timeUsed := [''f'' \<mapsto> 0]\<rparr>)"
    using st by (simp add: profileNeg_def Start_process0 collector0_def)
  have "Collect_metrics parseNeg ?w =
      Panicked CounterCannotDecrease
        (?w\<lparr>collector := collector0\<lparr>running := True, started := 1, timeUsed := [''f'' \<mapsto> 0]\<rparr>,
            prof := (prof ?w)\<lparr>profileRate := 0, profBuf := [], unread := False\<rparr>\<rparr>)"
    using r p l by (rule Collect_metrics_counter_panic)
  then have "Collect_metrics parseNeg ?w =
      Panicked CounterCannotDecrease
       \<lparr>collector = collector0\<lparr>running := True, started := 1, timeUsed := [''f'' \<mapsto> 0]\<rparr>,
        prof = \<lparr>profileRate = 0, profBuf = [], unread = False\<rparr>\<rparr>"
    by (simp add: Start_process0)
  then show ?thesis
    using r by (simp add: sampleNeg_def profileNeg_def Start_process0 collector0_def reading_def)
qed

text \<open>
  Claim C1, amended. For every sample processed during a scrape of a running collector
  (\<open>sampleStep\<close> is what the scrape does with one sample): a sample with an empty stack or
  with fewer than two values leaves both counters as they are; a sample with a non-empty
  stack and at least two values, the second of which is not negative, adds
  \<open>Value[1] / 1000000\<close> milliseconds to the self-time counter of the name resolved for the
  leaf frame \<open>Location[0]\<close> and to no other self-time counter, and adds to the cumulative
  counter of every name that amount once for each frame of the stack that resolves to the
  name. And over a whole scrape of a running collector whose decoding succeeds, when no
  sample with a non-empty stack and at least two values has a negative second value, the
  scrape returns, every sample of the profile has been counted so (each counter has grown
  by the sum of these amounts over all samples), and the counters are published so.
  Counter values are real numbers here: the rounding of \<open>float64\<close> is not modelled.
\<close>

theorem running_scrape_attribution:
  "(Sample.Location s = [] \<or> length (Value s) < 2 \<longrightarrow> sampleStep locations c s = Inr c) \<and>
   (Sample.Location s \<noteq> [] \<and> 2 \<le> length (Value s) \<and> 0 \<le> sint (Value s ! 1) \<longrightarrow>
      (\<exists>c'. sampleStep locations c s = Inr c' \<and>
         (\<forall>f. reading (timeUsed c') f = reading (timeUsed c) f +
            (if index locations (ID (hd (Sample.Location s))) = f
             then real_of_int (sint (Value s ! 1)) / 1000000 else 0)) \<and>
         (\<forall>f. reading (timeUsedCum c') f = reading (timeUsedCum c) f +
            of_nat (count_list (map (\<lambda>l. index locations (ID l)) (Sample.Location s)) f) *
              (real_of_int (sint (Value s ! 1)) / 1000000)))) \<and>
   (running (collector w) \<and>
    parse (fst (drain (SetCPUProfileRate 0 (prof w)) [])) = Inr p \<and>
    (\<forall>s\<in>set (Profile.Sample p).
       Sample.Location s \<noteq> [] \<and> 2 \<le> length (Value s) \<longrightarrow> 0 \<le> sint (Value s ! 1)) \<longrightarrow>
      (\<exists>w' out. Collect_metrics parse w = Returned w' out \<and>
         (\<forall>f. reading (timeUsed (collector w')) f = reading (timeUsed (collector w)) f +
            (\<Sum>s\<leftarrow>Profile.Sample p.
               if Sample.Location s = [] \<or> length (Value s) < 2 then 0
               else if index (mapLocations (Profile.Location p) (symbols (collector w)))
                      (ID (hd (Sample.Location s))) = f
                 then real_of_int (sint (Value s ! 1)) / 1000000 else 0)) \<and>
         (\<forall>f. reading (timeUsedCum (collector w')) f = reading (timeUsedCum (collector w)) f +
            (\<Sum>s\<leftarrow>Profile.Sample p.
               if Sample.Location s = [] \<or> length (Value s) < 2 then 0
               else of_nat (count_list (map (\<lambda>l. index (mapLocations (Profile.Location p)
                      (symbols (collector w))) (ID l)) (Sample.Location s)) f) *
                 (real_of_int (sint (Value s ! 1)) / 1000000))) \<and>
         pub_timeUsed out = timeUsed (collector w') \<and>
         pub_timeUsedCum out = timeUsedCum (collector w')))"
proof (intro conjI impI)
  assume "Sample.Location s = [] \<or> length (Value s) < 2"
  then show "sampleStep locations c s = Inr c" by (rule sampleStep_skip)
next
  assume "Sample.Location s \<noteq> [] \<and> 2 \<le> length (Value s) \<and> 0 \<le> sint (Value s ! 1)"
  then have "Sample.Location s \<noteq> []" "2 \<le> length (Value s)" "0 \<le> sint (Value s ! 1)"
    by simp_all
  from sampleStep_nonneg [OF this, of locations c]
  show "\<exists>c'. sampleStep locations c s = Inr c' \<and>
         (\<forall>f. reading (timeUsed c') f = reading (timeUsed c) f +
            (if index locations (ID (hd (Sample.Location s))) = f
             then real_of_int (sint (Value s ! 1)) / 1000000 else 0)) \<and>
         (\<forall>f. reading (timeUsedCum c') f = reading (timeUsedCum c) f +
            of_nat (count_list (map (\<lambda>l. index locations (ID l)) (Sample.Location s)) f) *
              (real_of_int (sint (Value s ! 1)) / 1000000))"
    by blast
next
  assume a: "running (collector w) \<and>
    parse (fst (drain (SetCPUProfileRate 0 (prof w)) [])) = Inr p \<and>
    (\<forall>s\<in>set (Profile.Sample p).
       Sample.Location s \<noteq> [] \<and> 2 \<le> length (Value s) \<longrightarrow> 0 \<le> sint (Value s ! 1))"
  then have r: "running (collector w)"
    and d: "parse (concat (profBuf (prof w))) = Inr p"
    and n: "\<forall>s\<in>set (Profile.Sample p).
       Sample.Location s \<noteq> [] \<and> 2 \<le> length (Value s) \<longrightarrow> 0 \<le> sint (Value s ! 1)"
    by (simp_all add: drained_bytes)
  from r d n show "\<exists>w' out. Collect_metrics parse w = Returned w' out \<and>
         (\<forall>f. reading (timeUsed (collector w')) f = reading (timeUsed (collector w)) f +
            (\<Sum>s\<leftarrow>Profile.Sample p.
               if Sample.Location s = [] \<or> length (Value s) < 2 then 0
               else if index (mapLocations (Profile.Location p) (symbols (collector w)))
                      (ID (hd (Sample.Location s))) = f
                 then real_of_int (sint (Value s ! 1)) / 1000000 else 0)) \<and>
         (\<forall>f. reading (timeUsedCum (collector w')) f = reading (timeUsedCum (collector w)) f +
            (\<Sum>s\<leftarrow>Profile.Sample p.
               if Sample.Location s = [] \<or> length (Value s) < 2 then 0
               else of_nat (count_list (map (\<lambda>l. index (mapLocations (Profile.Location p)
                      (symbols (collector w))) (ID l)) (Sample.Location s)) f) *
                 (real_of_int (sint (Value s ! 1)) / 1000000))) \<and>
         pub_timeUsed out = timeUsed (collector w') \<and>
         pub_timeUsedCum out = timeUsedCum (collector w')"
    by (rule running_scrape_totals)
qed

text \<open>
  A sample with one value only is skipped. The scrape of the started collector with the
  example profile: the recursive stack gives \<open>f\<close> 300 ms of self time and 600 ms of
  cumulative time, the second sample gives the empty label 500 ms of each and \<open>f\<close>, its
  caller, 500 ms more of cumulative time.
\<close>

theorem running_scrape_attribution_witness:
  "sampleStep (mapLocations [loc1, loc2, loc3] [symF]) collector0
     \<lparr>Sample.Location = [loc1], Value = [1]\<rparr> = Inr collector0 \<and>
   (\<exists>w' out. Collect_metrics parseOk (Start process0) = Returned w' out \<and>
      reading (timeUsed (collector w')) ''f'' = 300 \<and>
      reading (timeUsedCum (collector w')) ''f'' = 1100 \<and>
      reading (timeUsed (collector w')) '''' = 500 \<and>
      reading (timeUsedCum (collector w')) '''' = 500 \<and>
      pub_timeUsed out = timeUsed (collector w') \<and>
      pub_timeUsedCum out = timeUsedCum (collector w'))"
proof -
  let ?w = "Start process0"
  let ?locs = "mapLocations (Profile.Location profile0) (symbols (collector ?w))"
  have skip: "sampleStep (mapLocations [loc1, loc2, loc3] [symF]) collector0
      \<lparr>Sample.Location = [loc1], Value = [1]\<rparr> = Inr collector0"
    using running_scrape_attribution [of "\<lparr>Sample.Location = [loc1], Value = [1]\<rparr>"
        "mapLocations [loc1, loc2, loc3] [symF]" collector0]
    by simp
  have h: "running (collector ?w) \<and>
      parseOk (fst (drain (SetCPUProfileRate 0 (prof ?w)) [])) = Inr profile0 \<and>
      (\<forall>s\<in>set (Profile.Sample profile0).
         Sample.Location s \<noteq> [] \<and> 2 \<le> length (Value s) \<longrightarrow> 0 \<le> sint (Value s ! 1))"
    by (simp add: Start_process0 parseOk_def profile0_def sampleRec_def sampleUnknown_def)
  have locs: "?locs = mapLocations [loc1, loc2, loc3] [symF]"
    by (simp add: profile0_def Start_process0 collector0_def)
  from running_scrape_attribution [of _ _ _ ?w parseOk profile0] h
  obtain w' out where c: "Collect_metrics parseOk ?w = Returned w' out"
    and s: "\<And>f. reading (timeUsed (collector w')) f = reading (timeUsed (collector ?w)) f +
        (\<Sum>s\<leftarrow>Profile.Sample profile0.
           if Sample.Location s = [] \<or> length (Value s) < 2 then 0
           else if index ?locs (ID (hd (Sample.Location s))) = f
             then real_of_int (sint (Value s ! 1)) / 1000000 else 0)"
    and u: "\<And>f. reading (timeUsedCum (collector w')) f = reading (timeUsedCum (collector ?w)) f +
        (\<Sum>s\<leftarrow>Profile.Sample profile0.
           if Sample.Location s = [] \<or> length (Value s) < 2 then 0
           else of_nat (count_list (map (\<lambda>l. index ?locs (ID l)) (Sample.Location s)) f) *
             (real_of_int (sint (Value s ! 1)) / 1000000))"
    and o: "pub_timeUsed out = timeUsed (collector w')" "pub_timeUsedCum out = timeUsedCum (collector w')"
    by blast
  have b: "timeUsed (collector ?w) = Map.empty" "timeUsedCum (collector ?w) = Map.empty"
    by (simp_all add: Start_process0 collector0_def)
  have "reading (timeUsed (collector w')) ''f'' = 300" "reading (timeUsed (collector w')) '''' = 500"
    unfolding s locs b
    by (simp_all add: profile0_def sampleRec_def sampleUnknown_def example_names reading_def)
  moreover have "reading (timeUsedCum (collector w')) ''f'' = 1100"
    "reading (timeUsedCum (collector w')) '''' = 500"
    unfolding u locs b
    by (simp_all add: profile0_def sampleRec_def sampleUnknown_def example_names reading_def)
  ultimately show ?thesis using c o skip by blast
qed

section \<open>Addresses that no symbol covers\<close>




section \<open>A scrape while stopped\<close>

text \<open>
  Claim C4. A scrape of a stopped collector returns with the whole process as it was: the
  profiler's buffer is not drained, the decoder is not called (the result does not depend
  on it), the two counter vectors, the event counters and the sampling rate are unchanged.
  The scrape still sends all four families: the children of both counter vectors and the
  two event counters.
\<close>

theorem stopped_scrape_publishes_only:
  "\<not> running (collector w) \<Longrightarrow>
     Collect_metrics parse w =
       Returned w \<lparr>pub_timeUsed = timeUsed (collector w),
                   pub_timeUsedCum = timeUsedCum (collector w),
                   pub_started = started (collector w), pub_stopped = stopped (collector w)\<rparr>"
  by (simp add: Collect_metrics_def publish_def)

theorem stopped_scrape_publishes_only_witness:
  "Collect_metrics parseOk (process0\<lparr>prof := \<lparr>profileRate = 0, profBuf = [[1, 2, 3]], unread = True\<rparr>\<rparr>) =
     Returned (process0\<lparr>prof := \<lparr>profileRate = 0, profBuf = [[1, 2, 3]], unread = True\<rparr>\<rparr>)
       \<lparr>pub_timeUsed = Map.empty, pub_timeUsedCum = Map.empty, pub_started = 0, pub_stopped = 0\<rparr>"
  using stopped_scrape_publishes_only
    [of "process0\<lparr>prof := \<lparr>profileRate = 0, profBuf = [[1, 2, 3]], unread = True\<rparr>\<rparr>" parseOk]
  by (simp add: process0_def collector0_def)

section \<open>Start after Stop\<close>

text \<open>
  What \<open>Start\<close> and \<open>Stop\<close> do to the collector, and to the sampling rate when the runtime
  takes the rate: \<open>Start\<close> of a running collector and \<open>Stop\<close> of a stopped one change
  nothing, so both are idempotent; \<open>Start\<close> of a stopped collector sets \<open>running\<close> and adds
  1 to \<open>started\<close>, and the rate becomes \<open>cpuProfileRate\<close> when sampling was off and no
  profile was unread; \<open>Stop\<close> of a running collector clears \<open>running\<close>, adds 1 to \<open>stopped\<close>
  and sets the rate to 0.
\<close>

lemma Start_Stop_effects:
  "(running (collector w) \<longrightarrow> Start w = w) \<and>
   (\<not> running (collector w) \<longrightarrow>
      collector (Start w) = (collector w)\<lparr>running := True, started := started (collector w) + 1\<rparr> \<and>
      prof (Start w) = SetCPUProfileRate cpuProfileRate (prof w)) \<and>
   (\<not> running (collector w) \<and> profileRate (prof w) = 0 \<and> \<not> unread (prof w) \<longrightarrow>
      prof (Start w) = (prof w)\<lparr>profileRate := cpuProfileRate, unread := True\<rparr>) \<and>
   (\<not> running (collector w) \<and> (profileRate (prof w) \<noteq> 0 \<or> unread (prof w)) \<longrightarrow>
      prof (Start w) = prof w) \<and>
   (\<not> running (collector w) \<longrightarrow> Stop w = w) \<and>
   (running (collector w) \<longrightarrow>
      Stop w = w\<lparr>collector := (collector w)\<lparr>running := False,
                                             stopped := stopped (collector w) + 1\<rparr>,
                 prof := (prof w)\<lparr>profileRate := 0\<rparr>\<rparr>) \<and>
   Start (Start w) = Start w \<and> Stop (Stop w) = Stop w \<and>
   (\<not> running (collector w) \<longrightarrow>
      started (collector (Stop (Start (Start w)))) = started (collector w) + 1 \<and>
      stopped (collector (Stop (Start (Start w)))) = stopped (collector w) + 1 \<and>
      \<not> running (collector (Stop (Start (Start w)))) \<and>
      profileRate (prof (Stop (Start (Start w)))) = 0) \<and>
   cpuProfileRate \<noteq> 0"
  by (auto simp: Start_def Stop_def Inc_def SetCPUProfileRate_def cpuProfileRate_def)

text \<open>
  Claim C5 fails in one of its parts: \<open>Start\<close> in the stopped state does not always set
  the sampling rate. \<open>Start\<close> calls \<open>runtime.SetCPUProfileRate(cpuProfileRate)\<close>, and the
  runtime refuses a positive rate while the profile of the previous sampling period is
  unread; \<open>Stop\<close> switches sampling off and reads nothing. So on a new collector, in a
  process whose profiler is off, \<open>Start(); Stop(); Start()\<close> ends with \<open>running\<close> true and
  \<open>started\<close> 2, and with the sampling rate 0 instead of \<open>cpuProfileRate\<close>, which is 100:
  the collector counts as running while nothing is sampled. The first \<open>Start\<close> did set the
  rate, and the other parts of the claim hold (\<open>Start_Stop_effects\<close>).
\<close>

theorem Start_after_Stop_leaves_sampling_off:
  "NewCPUProfileCollector (\<lambda>path. Inr path) (\<lambda>exe. Inr [symF]) = Inr collector0 \<and>
   process0 = \<lparr>collector = collector0, prof = \<lparr>profileRate = 0, profBuf = [], unread = False\<rparr>\<rparr> \<and>
   Start process0 =
     \<lparr>collector = collector0\<lparr>running := True, started := 1\<rparr>,
      prof = \<lparr>profileRate = 100, profBuf = [], unread = True\<rparr>\<rparr> \<and>
   Stop (Start process0) =
     \<lparr>collector = collector0\<lparr>running := False, started := 1, stopped := 1\<rparr>,
      prof = \<lparr>profileRate = 0, profBuf = [], unread = True\<rparr>\<rparr> \<and>
   Start (Stop (Start process0)) =
     \<lparr>collector = collector0\<lparr>running := True, started := 2, stopped := 1\<rparr>,
      prof = \<lparr>profileRate = 0, profBuf = [], unread = True\<rparr>\<rparr> \<and>
   running (collector (Start (Stop (Start process0)))) \<and>
   profileRate (prof (Start (Stop (Start process0)))) = 0 \<and>
   cpuProfileRate = 100"
  by (simp add: NewCPUProfileCollector_def collector0_def process0_def Start_def Stop_def
      Inc_def SetCPUProfileRate_def cpuProfileRate_def)

section \<open>Monotone counters\<close>

text \<open>
  Claim C6. Over every sequence of \<open>Start\<close>, \<open>Stop\<close> and \<open>Collect\<close> calls, with whatever the
  runtime puts into its buffer in between and whatever the decoder returns, no exported
  counter decreases or disappears: every child of the two counter vectors at the start is
  still a child at the end of the run (also when a panic ends it) with a value at least as
  large, and \<open>started\<close> and \<open>stopped\<close> are at least as large.
\<close>

theorem counters_monotone:
  "counters_le (collector w) (collector (final (run parse es w)))"
proof (cases "run parse es w")
  case (Inl x)
  obtain p w' where x: "x = (p, w')" by (cases x)
  have "counters_le (collector w) (collector w')"
    using run_mono [of parse es w w' p] Inl x by simp
  then show ?thesis by (simp add: final_def Inl x)
next
  case (Inr w')
  have "counters_le (collector w) (collector w')"
    using run_mono [of parse es w w'] Inr by simp
  then show ?thesis by (simp add: final_def Inr)
qed

theorem counters_monotone_witness:
  "started (collector process0) \<le>
     started (collector (final (run parseOk [CallStart, Sampled [1], CallCollect, CallStop] process0))) \<and>
   stopped (collector process0) \<le>
     stopped (collector (final (run parseOk [CallStart, Sampled [1], CallCollect, CallStop] process0))) \<and>
   timeUsed (collector (final (run parseOk [CallStart, Sampled [1], CallCollect, CallStop] process0)))
     ''f'' = Some 300"
proof -
  have "timeUsed (collector (final (run parseOk [CallStart, Sampled [1], CallCollect, CallStop] process0)))
     ''f'' = Some 300"
    unfolding run_example by (simp add: final_def)
  then show ?thesis
    using counters_monotone [of process0 parseOk "[CallStart, Sampled [1], CallCollect, CallStop]"]
    by (simp add: counters_le_def)
qed

section \<open>A scrape whose decoding fails\<close>

text \<open>
  Claim C7. When the decoder rejects the bytes drained from the profiler in a scrape of a
  running collector, the scrape panics with the decoder's error. At the panic the collector
  is as it was before the scrape: no location was resolved, no sample was added, and both
  counter vectors and both event counters are unchanged.
\<close>

theorem decode_failure_aborts:
  assumes "running (collector w)"
    and "parse (fst (drain (SetCPUProfileRate 0 (prof w)) [])) = Inl err"
  shows "\<exists>w'. Collect_metrics parse w = Panicked (ParseError err) w' \<and>
     collector w' = collector w \<and>
     timeUsed (collector w') = timeUsed (collector w) \<and>
     timeUsedCum (collector w') = timeUsedCum (collector w) \<and>
     started (collector w') = started (collector w) \<and>
     stopped (collector w') = stopped (collector w)"
proof -
  have "parse (concat (profBuf (prof w))) = Inl err"
    using assms(2) by (simp add: drain_concat SetCPUProfileRate_def)
  then have "Collect_metrics parse w =
      Panicked (ParseError err) (w\<lparr>prof := (prof w)\<lparr>profileRate := 0, profBuf := [], unread := False\<rparr>\<rparr>)"
    using assms(1) by (rule Collect_metrics_parse_error [rotated])
  then show ?thesis by simp
qed

theorem decode_failure_aborts_witness:
  "\<exists>w'. Collect_metrics parseFail (Start process0) = Panicked (ParseError ''malformed profile'') w' \<and>
     collector w' = collector (Start process0) \<and> started (collector w') = 1"
proof -
  have r: "running (collector (Start process0))"
    by (simp add: Start_process0)
  have p: "parseFail (fst (drain (SetCPUProfileRate 0 (prof (Start process0))) [])) =
      Inl ''malformed profile''"
    by (simp add: parseFail_def)
  have s: "started (collector (Start process0)) = 1"
    by (simp add: Start_process0)
  from decode_failure_aborts [of "Start process0" parseFail, OF r p] show ?thesis
    using s by auto
qed

section \<open>The sampling rate and the running flag\<close>

lemma consistent_rateSound: "consistent w \<Longrightarrow> rateSound w"
  by (auto simp: consistent_def rateSound_def)

lemma rateSound_Start: "rateSound w \<Longrightarrow> rateSound (Start w)"
  by (auto simp: rateSound_def Start_def SetCPUProfileRate_def cpuProfileRate_def)

lemma consistent_Start:
  "rateSound w \<Longrightarrow> \<not> running (collector w) \<Longrightarrow> \<not> unread (prof w) \<Longrightarrow> consistent (Start w)"
  by (auto simp: rateSound_def consistent_def Start_def SetCPUProfileRate_def cpuProfileRate_def)

lemma consistent_Stop: "rateSound w \<Longrightarrow> consistent (Stop w)"
  by (auto simp: rateSound_def consistent_def Stop_def SetCPUProfileRate_def cpuProfileRate_def)

lemma Collect_metrics_outcomes:
  "(\<forall>w' out. Collect_metrics parse w = Returned w' out \<longrightarrow>
      running (collector w') = running (collector w) \<and>
      (running (collector w) \<longrightarrow> profileRate (prof w') = cpuProfileRate) \<and>
      (\<not> running (collector w) \<longrightarrow> w' = w)) \<and>
   (\<forall>e w'. Collect_metrics parse w = Panicked e w' \<longrightarrow>
      running (collector w) \<and> running (collector w') \<and> profileRate (prof w') = 0)"
proof (cases "running (collector w)")
  case False
  then show ?thesis by (simp add: Collect_metrics_stopped)
next
  case True
  show ?thesis
  proof (cases "parse (concat (profBuf (prof w)))")
    case (Inl err)
    then show ?thesis using True by (simp add: Collect_metrics_parse_error)
  next
    case (Inr p)
    note parsed = this
    show ?thesis
    proof (cases "sampleLoop (mapLocations (Profile.Location p) (symbols (collector w)))
        (Profile.Sample p) (collector w)")
      case (Inl x)
      obtain q c where x: "x = (q, c)" by (cases x)
      have "running c = running (collector w)"
        using Inl x sampleLoop_mono by blast
      then show ?thesis
        using Collect_metrics_counter_panic [of w parse p q c] True parsed Inl x by simp
    next
      case (Inr c)
      have "running c = running (collector w)"
        using Inr sampleLoop_mono by blast
      then show ?thesis
        using Collect_metrics_returns [of w parse p c] True parsed Inr by simp
    qed
  qed
qed

lemma consistent_Collect_metrics:
  assumes "rateSound w" and "Collect_metrics parse w = Returned w' out"
  shows "consistent w'"
proof (cases "running (collector w)")
  case False
  then have "w' = w" using assms(2) Collect_metrics_outcomes by blast
  then show ?thesis
    using assms(1) False by (auto simp: rateSound_def consistent_def cpuProfileRate_def)
next
  case True
  then have "running (collector w')" "profileRate (prof w') = cpuProfileRate"
    using assms(2) Collect_metrics_outcomes by blast+
  then show ?thesis
    by (simp add: consistent_def cpuProfileRate_def)
qed

lemma rateSound_step: "rateSound w \<Longrightarrow> rateSound (final (step parse e w))"
proof (cases e)
  case CallStart
  assume "rateSound w"
  then show ?thesis using CallStart by (simp add: final_def rateSound_Start)
next
  case CallStop
  assume "rateSound w"
  then show ?thesis
    using CallStop consistent_Stop [of w] by (simp add: final_def consistent_rateSound)
next
  case CallCollect
  assume r: "rateSound w"
  show ?thesis
  proof (cases "Collect_metrics parse w")
    case (Returned w' out)
    then have "consistent w'" using r consistent_Collect_metrics by blast
    then show ?thesis
      using CallCollect Returned by (simp add: final_def consistent_rateSound)
  next
    case (Panicked q w')
    then have "profileRate (prof w') = 0" using Collect_metrics_outcomes by blast
    then show ?thesis
      using CallCollect Panicked by (simp add: final_def rateSound_def)
  qed
next
  case (Sampled d)
  assume "rateSound w"
  then show ?thesis using Sampled by (simp add: final_def rateSound_def)
qed

lemma rateSound_run: "rateSound w \<Longrightarrow> rateSound (final (run parse es w))"
proof (induction es arbitrary: w)
  case Nil
  then show ?case by (simp add: final_def)
next
  case (Cons e es)
  show ?case
  proof (cases "step parse e w")
    case (Inl x)
    then show ?thesis
      using rateSound_step [OF Cons.prems, of parse e] by simp
  next
    case (Inr w1)
    then have "rateSound w1"
      using rateSound_step [OF Cons.prems, of parse e] by (simp add: final_def)
    then show ?thesis
      using Cons.IH [of w1] Inr by simp
  qed
qed

text \<open>
  Claim C8, as stated, fails for a scrape whose decoding fails: \<open>Collect\<close> has switched
  sampling off before it drains and decodes, and its \<open>panic(err)\<close> leaves the function
  without setting the rate again (only the unlock is deferred). Here the collector was
  started, the decoder rejects the input, and at the panic \<open>running\<close> is true while the
  sampling rate is 0.
\<close>

theorem decode_failure_leaves_sampling_off:
  "consistent (Start process0) \<and>
   Collect_metrics parseFail (Start process0) =
     Panicked (ParseError ''malformed profile'')
       \<lparr>collector = collector0\<lparr>running := True, started := 1\<rparr>,
        prof = \<lparr>profileRate = 0, profBuf = [], unread = False\<rparr>\<rparr> \<and>
   running (collector \<lparr>collector = collector0\<lparr>running := True, started := 1\<rparr>,
                       prof = \<lparr>profileRate = 0, profBuf = [], unread = False\<rparr>\<rparr>) \<and>
   profileRate (prof \<lparr>collector = collector0\<lparr>running := True, started := 1\<rparr>,
                      prof = \<lparr>profileRate = 0, profBuf = [], unread = False\<rparr>\<rparr>) = 0 \<and>
   \<not> consistent \<lparr>collector = collector0\<lparr>running := True, started := 1\<rparr>,
                  prof = \<lparr>profileRate = 0, profBuf = [], unread = False\<rparr>\<rparr>"
proof -
  have r: "running (collector (Start process0))"
    by (simp add: Start_process0)
  have p: "parseFail (concat (profBuf (prof (Start process0)))) = Inl ''malformed profile''"
    by (simp add: parseFail_def)
  have "Collect_metrics parseFail (Start process0) =
     Panicked (ParseError ''malformed profile'')
       \<lparr>collector = collector0\<lparr>running := True, started := 1\<rparr>,
        prof = \<lparr>profileRate = 0, profBuf = [], unread = False\<rparr>\<rparr>"
    unfolding Collect_metrics_parse_error [of "Start process0" parseFail, OF r p]
    by (simp add: Start_process0)
  moreover have "consistent (Start process0)"
    by (simp add: consistent_def Start_process0 cpuProfileRate_def)
  ultimately show ?thesis
    by (simp add: consistent_def cpuProfileRate_def)
qed

text \<open>
  Claim C8, amended. Let the process be, before an operation, in a state where sampling is
  off or the collector is running with the sampling rate at \<open>cpuProfileRate\<close>
  (\<open>rateSound\<close>: so it is for a new collector in a process whose profiler is off, and
  every \<open>Start\<close>, \<open>Stop\<close> and \<open>Collect\<close>, returning or not, and every sequence of them
  keeps it so). Then the sampling rate agrees with \<open>running\<close> (the rate is
  \<open>cpuProfileRate\<close> exactly when \<open>running\<close> is true and 0 exactly when it is false) after
  \<open>Stop\<close> and after every \<open>Collect\<close> that returns; a scrape of a running collector that
  returns leaves it running with the rate set to \<open>cpuProfileRate\<close> again. A \<open>Collect\<close>
  that panics, on a decode failure or in a counter, does so on a running collector and
  leaves \<open>running\<close> true and the rate 0. \<open>Start\<close> on a running collector changes nothing;
  after \<open>Start\<close> on a stopped collector the rate agrees with \<open>running\<close> when the runtime
  holds no unread profile. Nothing is said here of the rate after a \<open>Start\<close> that finds the
  profile of an earlier sampling period unread: that is the case of claim C5.
\<close>

theorem rate_agrees_after_Stop_and_returning_scrape:
  "rateSound w \<Longrightarrow>
     consistent (Stop w) \<and>
     (\<forall>w' out. Collect_metrics parse w = Returned w' out \<longrightarrow>
        consistent w' \<and>
        (running (collector w) \<longrightarrow>
           running (collector w') \<and> profileRate (prof w') = cpuProfileRate)) \<and>
     (\<forall>e w'. Collect_metrics parse w = Panicked e w' \<longrightarrow>
        running (collector w) \<and> running (collector w') \<and> profileRate (prof w') = 0) \<and>
     (running (collector w) \<longrightarrow> Start w = w) \<and>
     (\<not> running (collector w) \<and> \<not> unread (prof w) \<longrightarrow> consistent (Start w)) \<and>
     rateSound (Start w) \<and>
     (\<forall>es. rateSound (final (run parse es w)))"
proof (intro conjI allI impI)
  assume c: "rateSound w"
  show "consistent (Stop w)" using c by (rule consistent_Stop)
  show "rateSound (Start w)" using c by (rule rateSound_Start)
  show "rateSound (final (run parse es w))" for es
    using c by (rule rateSound_run)
  show "Start w = w" if "running (collector w)"
    using that by (simp add: Start_def)
  show "consistent (Start w)" if "\<not> running (collector w) \<and> \<not> unread (prof w)"
    using c that by (simp add: consistent_Start)
  show "consistent w'" if "Collect_metrics parse w = Returned w' out" for w' out
    using c that by (rule consistent_Collect_metrics)
  show "running (collector w')" and "profileRate (prof w') = cpuProfileRate"
    if "Collect_metrics parse w = Returned w' out" and "running (collector w)" for w' out
    using that Collect_metrics_outcomes by blast+
  show "running (collector w)" and "running (collector w')" and "profileRate (prof w') = 0"
    if "Collect_metrics parse w = Panicked e w'" for e w'
    using that Collect_metrics_outcomes by blast+
qed

text \<open>
  A new collector in a process whose profiler is off: the rate agrees with \<open>running\<close>
  after \<open>Start\<close>, after \<open>Stop\<close>, and after the scrape of the started collector, which
  leaves the rate at 100.
\<close>

theorem rate_agrees_after_Stop_and_returning_scrape_witness:
  "rateSound process0 \<and> rateSound (Start process0) \<and>
   consistent (Start process0) \<and> consistent (Stop process0) \<and>
   consistent (Stop (Start process0)) \<and>
   Collect_metrics parseOk (Start process0) =
     Returned
       \<lparr>collector = \<lparr>timeUsed = [''f'' \<mapsto> 300, '''' \<mapsto> 500],
                      timeUsedCum = [''f'' \<mapsto> 1100, '''' \<mapsto> 500],
                      started = 1, stopped = 0, running = True, symbols = [symF]\<rparr>,
        prof = \<lparr>profileRate = 100, profBuf = [], unread = True\<rparr>\<rparr>
       \<lparr>pub_timeUsed = [''f'' \<mapsto> 300, '''' \<mapsto> 500],
        pub_timeUsedCum = [''f'' \<mapsto> 1100, '''' \<mapsto> 500],
        pub_started = 1, pub_stopped = 0\<rparr> \<and>
   consistent \<lparr>collector = \<lparr>timeUsed = [''f'' \<mapsto> 300, '''' \<mapsto> 500],
                          timeUsedCum = [''f'' \<mapsto> 1100, '''' \<mapsto> 500],
                          started = 1, stopped = 0, running = True, symbols = [symF]\<rparr>,
               prof = \<lparr>profileRate = 100, profBuf = [], unread = True\<rparr>\<rparr>"
proof -
  have c0: "rateSound process0"
    by (simp add: rateSound_def process0_def)
  have n: "\<not> running (collector process0) \<and> \<not> unread (prof process0)"
    by (simp add: process0_def collector0_def)
  have c1: "rateSound (Start process0)" and c2: "consistent (Start process0)"
    and c3: "consistent (Stop process0)"
    using rate_agrees_after_Stop_and_returning_scrape [OF c0] n by blast+
  have c4: "consistent (Stop (Start process0))"
    using rate_agrees_after_Stop_and_returning_scrape [OF c1] by blast
  have s: "Collect_metrics parseOk (Start process0) =
      Returned
        \<lparr>collector = \<lparr>timeUsed = [''f'' \<mapsto> 300, '''' \<mapsto> 500],
                       timeUsedCum = [''f'' \<mapsto> 1100, '''' \<mapsto> 500],
                       started = 1, stopped = 0, running = True, symbols = [symF]\<rparr>,
         prof = \<lparr>profileRate = 100, profBuf = [], unread = True\<rparr>\<rparr>
        \<lparr>pub_timeUsed = [''f'' \<mapsto> 300, '''' \<mapsto> 500],
         pub_timeUsedCum = [''f'' \<mapsto> 1100, '''' \<mapsto> 500],
         pub_started = 1, pub_stopped = 0\<rparr>"
    unfolding Start_process0 by (rule scrape_example)
  have c5: "consistent \<lparr>collector = \<lparr>timeUsed = [''f'' \<mapsto> 300, '''' \<mapsto> 500],
                          timeUsedCum = [''f'' \<mapsto> 1100, '''' \<mapsto> 500],
                          started = 1, stopped = 0, running = True, symbols = [symF]\<rparr>,
               prof = \<lparr>profileRate = 100, profBuf = [], unread = True\<rparr>\<rparr>"
    using rate_agrees_after_Stop_and_returning_scrape [OF c1, of parseOk] s by blast
  show ?thesis
    using c0 c1 c2 c3 c4 c5 s by blast
qed


end
